theory Spec2Isabelle
  imports Main
begin

section \<open>Python values used by the engine\<close>

text \<open>
  Exceptions of the source are values of \<open>exn\<close>; a call that may raise returns
  \<open>exn + 'a\<close> with \<open>Inl\<close> for the raised exception. \<open>ModelRequestException\<close>
  carries its \<open>message\<close> and its \<open>model_type\<close> (model.py). \<open>ApiError\<close> stands for
  whatever exception an HTTP or vendor SDK call raises, with its \<open>str\<close>.
\<close>

datatype exn =
    ModelRequestException string string
  | ApiError string
  | TypeError
  | IndexError
  | KeyError
  | FileNotFoundError string
  | AgentNotPreparedError string
  | InvalidAgentError string
  | ModelConfigurationError string
  | ValueError string
  | IsADirectoryError string
  | PermissionError string
  | UnicodeDecodeError

text \<open>
  \<open>list.insert(i, x)\<close> of Python: a negative index counts from the end, and an index
  outside the list is clamped to its ends; it never raises.
\<close>

definition py_insert :: "int \<Rightarrow> 'a \<Rightarrow> 'a list \<Rightarrow> 'a list" where
  "py_insert i x xs =
     (let n = int (length xs);
          j = (if i < 0 then max 0 (i + n) else min i n)
      in take (nat j) xs @ [x] @ drop (nat j) xs)"

text \<open>\<open>xs[i]\<close> of Python: a negative index counts from the end; out of range raises.\<close>

definition py_index :: "'a list \<Rightarrow> int \<Rightarrow> exn + 'a" where
  "py_index xs i =
     (if 0 \<le> i \<and> i < int (length xs) then Inr (xs ! nat i)
      else if i < 0 \<and> - int (length xs) \<le> i then Inr (xs ! nat (int (length xs) + i))
      else Inl IndexError)"

text \<open>
  \<open>str.isspace\<close> on the code points below 256, and \<open>str.strip()\<close>. A \<open>string\<close> here
  is a list of such code points.
\<close>

definition py_isspace :: "char \<Rightarrow> bool" where
  "py_isspace c =
     (let k = of_char c :: nat
      in (9 \<le> k \<and> k \<le> 13) \<or> (28 \<le> k \<and> k \<le> 32) \<or> k = 133 \<or> k = 160)"

definition py_strip :: "string \<Rightarrow> string" where
  "py_strip s = rev (dropWhile py_isspace (rev (dropWhile py_isspace s)))"

definition startswith :: "string \<Rightarrow> string \<Rightarrow> bool" where
  "startswith s p = (take (length p) s = p)"

text \<open>
  \<open>s.split(sep)\<close> for a non-empty separator: the pieces between the non-overlapping
  occurrences of \<open>sep\<close>, found from the left. (Python raises ValueError on an empty
  separator; both call sites pass a non-empty literal, and the model returns the
  string unsplit there.)
\<close>

function py_split :: "string \<Rightarrow> string \<Rightarrow> string list" where
  "py_split sep [] = [[]]"
| "py_split sep (c # cs) =
     (if sep \<noteq> [] \<and> startswith (c # cs) sep
      then [] # py_split sep (drop (length sep) (c # cs))
      else (case py_split sep cs of
              [] \<Rightarrow> [[c]]
            | p # ps \<Rightarrow> (c # p) # ps))"
  by pat_completeness auto
termination
  by (relation "measure (\<lambda>(sep, s). length s)") auto

section \<open>Timeline (timeline\_editor.py)\<close>

text \<open>Class \<open>Message\<close>: the attributes \<open>role\<close> and \<open>text\<close> (\<open>msg_text\<close> here).\<close>

record message =
  role :: string
  msg_text :: string

record segment =
  seg_start :: int
  seg_end :: int

text \<open>
  The fields of class \<open>Timeline\<close>. A frozen segment is the dict
  \<open>{'start': .., 'end': ..}\<close>; \<open>loaded_filename\<close> is \<open>None\<close> until a load.
\<close>

record timeline =
  history :: "message list"
  current_position :: int
  frozen_segments :: "segment list"
  start_mode :: string
  loaded_filename :: "string option"

definition Timeline_init :: timeline where
  "Timeline_init =
     \<lparr>history = [], current_position = 0, frozen_segments = [],
      start_mode = ''interactive'', loaded_filename = None\<rparr>"

definition add_message :: "string \<Rightarrow> string \<Rightarrow> timeline \<Rightarrow> timeline" where
  "add_message r txt t =
     (let msg = \<lparr>role = r, msg_text = txt\<rparr>;
          insert_index = current_position t + 1
      in t\<lparr>history := py_insert insert_index msg (history t),
            current_position := insert_index\<rparr>)"

text \<open>The invariant of the data model: the cursor indexes a message of a non-empty history.\<close>

definition position_ok :: "timeline \<Rightarrow> bool" where
  "position_ok t =
     (history t = [] \<or> (0 \<le> current_position t \<and> current_position t < int (length (history t))))"


subsection \<open>Persistence\<close>

text \<open>
  The parsed content of a timeline file: what \<open>save\<close> hands to \<open>json.dump\<close> and what
  \<open>json.load\<close> hands back to \<open>load\<close>, with the defaults of \<open>data.get\<close> applied.
  Writing and parsing the JSON text is the library's part and is taken to give the
  same data back.
\<close>

record persisted =
  p_history :: "message list"
  p_frozenSegments :: "segment list"
  p_startMode :: string
  p_name :: string
  p_description :: string

text \<open>
  \<open>save\<close>, from the point where \<open>name\<close> and \<open>description\<close> are known (an empty one is
  asked from the terminal first): the \<open>data\<close> dictionary that is written.
\<close>

definition save :: "timeline \<Rightarrow> string \<Rightarrow> string \<Rightarrow> persisted" where
  "save t name description =
     (let sm = (if frozen_segments t \<noteq> [] \<and> seg_start (hd (frozen_segments t)) = 0
                then ''frozen'' else ''interactive'')
      in \<lparr>p_history = history t, p_frozenSegments = frozen_segments t, p_startMode = sm,
          p_name = name, p_description = description\<rparr>)"

definition file_content_sep :: string where
  "file_content_sep = [CHR 0x0A, CHR 0x0A] @ ''File Content:'' @ [CHR 0x0A]"

text \<open>
  Reading a text file, \<open>open(file_path, 'r')\<close> followed by \<open>read()\<close>, is a parameter: for
  a path it returns the content (\<open>Inr\<close>) or raises (\<open>Inl\<close>): \<open>FileNotFoundError\<close>,
  \<open>IsADirectoryError\<close>, \<open>PermissionError\<close>, \<open>UnicodeDecodeError\<close>, \<open>ValueError\<close> or any other.
\<close>

type_synonym disk = "string \<Rightarrow> exn + string"

text \<open>
  \<open>reconstruct_message\<close>. The source catches \<open>FileNotFoundError\<close> and nothing else: any
  other exception of the read leaves the method, and \<open>load\<close> with it.
\<close>

definition reconstruct_message :: "disk \<Rightarrow> message \<Rightarrow> exn + message" where
  "reconstruct_message fs message_data =
     (let r = role message_data; txt = msg_text message_data
      in if startswith txt ''File sent: ''
         then (let file_path_part = py_split ''File sent: '' txt ! 1;
                   file_path = py_split file_content_sep file_path_part ! 0;
                   base_text = py_split file_content_sep txt ! 0
               in case fs file_path of
                    Inr file_content \<Rightarrow>
                      Inr \<lparr>role = r, msg_text = base_text @ file_content_sep @ file_content\<rparr>
                  | Inl (FileNotFoundError _) \<Rightarrow>
                      Inr \<lparr>role = r,
                           msg_text = base_text @ [CHR 0x0A] @ ''Error: File not found at ''
                                      @ [CHR 0x27] @ file_path @ [CHR 0x27]\<rparr>
                  | Inl e \<Rightarrow> Inl e)
         else Inr \<lparr>role = r, msg_text = txt\<rparr>)"

text \<open>
  The loop of the branch of \<open>load\<close> without frozen segments: every persisted message
  is reconstructed and appended, and the first raise ends the loop.
\<close>

fun reconstruct_all :: "disk \<Rightarrow> message list \<Rightarrow> message list \<Rightarrow> exn + message list" where
  "reconstruct_all fs [] h = Inr h"
| "reconstruct_all fs (message_data # rest) h =
     (case reconstruct_message fs message_data of
        Inl e \<Rightarrow> Inl e
      | Inr msg \<Rightarrow> reconstruct_all fs rest (h @ [msg]))"

text \<open>
  The first loop of the frozen branch of \<open>load\<close>. Its state is the history built so
  far, the dictionary \<open>index_mapping\<close> and the counter \<open>new_index\<close>. \<open>load_range\<close> is
  the inner loop over \<open>range(start, end + 1)\<close>, \<open>load_segments\<close> the outer one.
\<close>

type_synonym load_state = "message list \<times> (int \<rightharpoonup> int) \<times> int"

fun load_range ::
  "disk \<Rightarrow> message list \<Rightarrow> int list \<Rightarrow> load_state \<Rightarrow> exn + load_state" where
  "load_range fs initial_history [] st = Inr st"
| "load_range fs initial_history (idx # idxs) (h, index_mapping, new_index) =
     (case py_index initial_history idx of
        Inl e \<Rightarrow> Inl e
      | Inr message_data \<Rightarrow>
          (case reconstruct_message fs message_data of
             Inl e \<Rightarrow> Inl e
           | Inr msg \<Rightarrow>
               load_range fs initial_history idxs
                 (h @ [msg], index_mapping(idx \<mapsto> new_index), new_index + 1)))"

fun load_segments ::
  "disk \<Rightarrow> message list \<Rightarrow> segment list \<Rightarrow> load_state \<Rightarrow> exn + load_state" where
  "load_segments fs initial_history [] st = Inr st"
| "load_segments fs initial_history (s # ss) st =
     (case load_range fs initial_history [seg_start s..seg_end s] st of
        Inl e \<Rightarrow> Inl e
      | Inr st' \<Rightarrow> load_segments fs initial_history ss st')"

text \<open>The second loop: each segment is looked up in \<open>index_mapping\<close> (KeyError if absent).\<close>

fun remap_segments :: "(int \<rightharpoonup> int) \<Rightarrow> segment list \<Rightarrow> exn + segment list" where
  "remap_segments index_mapping [] = Inr []"
| "remap_segments index_mapping (s # ss) =
     (case index_mapping (seg_start s) of
        None \<Rightarrow> Inl KeyError
      | Some new_start \<Rightarrow>
          (case index_mapping (seg_end s) of
             None \<Rightarrow> Inl KeyError
           | Some new_end \<Rightarrow>
               (case remap_segments index_mapping ss of
                  Inl e \<Rightarrow> Inl e
                | Inr rest \<Rightarrow> Inr (\<lparr>seg_start = new_start, seg_end = new_end\<rparr> # rest))))"

text \<open>
  \<open>load\<close>, from \<open>data = json.load(f)\<close> on, with \<open>path=None\<close>. Every field of the
  Timeline is overwritten. On a raise the half-rebuilt Timeline is not returned.
\<close>

definition load :: "disk \<Rightarrow> string \<Rightarrow> persisted \<Rightarrow> timeline \<Rightarrow> exn + timeline" where
  "load fs filename data t =
     (let initial_history = p_history data;
          original_frozen_segments = p_frozenSegments data;
          sm = p_startMode data
      in if original_frozen_segments = []
         then (case reconstruct_all fs initial_history [] of
                 Inl e \<Rightarrow> Inl e
               | Inr h \<Rightarrow>
                   Inr (t\<lparr>history := h, current_position := int (length h) - 1,
                          frozen_segments := [], start_mode := sm,
                          loaded_filename := Some filename\<rparr>))
         else (case load_segments fs initial_history original_frozen_segments ([], Map.empty, 0) of
                 Inl e \<Rightarrow> Inl e
               | Inr (h, index_mapping, new_index) \<Rightarrow>
                   (case remap_segments index_mapping original_frozen_segments of
                      Inl e \<Rightarrow> Inl e
                    | Inr segs \<Rightarrow>
                        (case segs of
                           [] \<Rightarrow> Inl IndexError
                         | s0 # _ \<Rightarrow>
                             Inr (t\<lparr>history := h, current_position := seg_start s0,
                                    frozen_segments := segs, start_mode := sm,
                                    loaded_filename := Some filename\<rparr>)))))"

text \<open>
  The claims about the frozen branch speak of segments that are in bounds, disjoint
  and sorted by start, and of where each segment lands in the shorter history.
  \<open>remap_spec\<close> follows the specification's words: the segments are laid out one
  after the other from \<open>offset\<close>, each keeping its length.
\<close>

definition in_bounds :: "nat \<Rightarrow> segment \<Rightarrow> bool" where
  "in_bounds n s = (0 \<le> seg_start s \<and> seg_start s \<le> seg_end s \<and> seg_end s < int n)"

definition disjoint_seg :: "segment \<Rightarrow> segment \<Rightarrow> bool" where
  "disjoint_seg s u = (seg_end s < seg_start u \<or> seg_end u < seg_start s)"

definition valid_segments :: "nat \<Rightarrow> segment list \<Rightarrow> bool" where
  "valid_segments n segs =
     (list_all (in_bounds n) segs
      \<and> sorted_wrt disjoint_seg segs
      \<and> sorted_wrt (\<lambda>s u. seg_start s \<le> seg_start u) segs)"

fun remap_spec :: "segment list \<Rightarrow> int \<Rightarrow> segment list" where
  "remap_spec [] offset = []"
| "remap_spec (s # ss) offset =
     \<lparr>seg_start = offset, seg_end = offset + (seg_end s - seg_start s)\<rparr>
       # remap_spec ss (offset + (seg_end s - seg_start s) + 1)"

definition slice :: "'a list \<Rightarrow> segment \<Rightarrow> 'a list" where
  "slice xs s = take (nat (seg_end s - seg_start s + 1)) (drop (nat (seg_start s)) xs)"

text \<open>
  \<open>tiles pos segs n\<close>: the segments cover the indices from \<open>pos\<close> up to \<open>n - 1\<close>
  without gap or overlap, in their order.
\<close>

fun tiles :: "int \<Rightarrow> segment list \<Rightarrow> int \<Rightarrow> bool" where
  "tiles pos [] n = (pos = n)"
| "tiles pos (s # ss) n = (seg_start s = pos \<and> seg_start s \<le> seg_end s \<and> tiles (seg_end s + 1) ss n)"

text \<open>Auxiliary notions for the loop invariant of \<open>load_segments\<close>.\<close>

fun agrees :: "(int \<rightharpoonup> int) \<Rightarrow> segment list \<Rightarrow> int \<Rightarrow> bool" where
  "agrees m [] n = True"
| "agrees m (s # ss) n =
     (m (seg_start s) = Some n \<and> m (seg_end s) = Some (n + (seg_end s - seg_start s))
      \<and> agrees m ss (n + (seg_end s - seg_start s) + 1))"

fun total_len :: "segment list \<Rightarrow> int" where
  "total_len [] = 0"
| "total_len (s # ss) = (seg_end s - seg_start s) + 1 + total_len ss"

definition example_timeline :: timeline where
  "example_timeline =
     \<lparr>history = [\<lparr>role = ''system'', msg_text = ''Be brief.''\<rparr>,
                 \<lparr>role = ''user'', msg_text = ''a''\<rparr>,
                 \<lparr>role = ''model'', msg_text = ''b''\<rparr>,
                 \<lparr>role = ''user'', msg_text = ''c''\<rparr>,
                 \<lparr>role = ''model'', msg_text = ''d''\<rparr>,
                 \<lparr>role = ''user'', msg_text = ''e''\<rparr>],
      current_position = 5,
      frozen_segments = [\<lparr>seg_start = 2, seg_end = 4\<rparr>],
      start_mode = ''interactive'', loaded_filename = None\<rparr>"

definition covered :: "segment list \<Rightarrow> int set" where
  "covered segs = (\<Union>s\<in>set segs. {seg_start s..seg_end s})"


section \<open>CommandProcessor (timeline\_editor.py)\<close>

text \<open>
  A turn of the outbound conversation is a dictionary with the key \<open>role\<close> and either
  \<open>parts\<close> (a list of dictionaries that may have the key \<open>text\<close>) or \<open>content\<close>.
\<close>

record conv_message =
  cm_role :: string
  cm_parts :: "string option list option"
  cm_content :: "string option"

text \<open>\<open>construct_message\<close> as every call in the sources uses it, without \<open>file_path\<close>.\<close>

definition construct_message :: "string \<Rightarrow> string \<Rightarrow> conv_message option" where
  "construct_message message r =
     (if py_strip message = [] then None
      else Some \<lparr>cm_role = r, cm_parts = Some [Some message], cm_content = None\<rparr>)"

definition conversation_of :: "message list \<Rightarrow> conv_message list" where
  "conversation_of h =
     map (\<lambda>msg. \<lparr>cm_role = role msg, cm_parts = Some [Some (msg_text msg)], cm_content = None\<rparr>)
         (filter (\<lambda>msg. py_strip (msg_text msg) \<noteq> []) h)"

text \<open>
  \<open>_process_message\<close>. The provider's \<open>generate_content\<close> is the parameter \<open>gen\<close>. The
  result is the returned pair \<open>(model_response, error_message)\<close> or the exception
  that leaves the method, together with the Timeline as the call leaves it. An input
  that starts with \<open>file\<close> and a blank calls \<open>process_file_input\<close> with one argument
  where the method takes two, which is a TypeError.
\<close>

definition process_message ::
  "(conv_message list \<Rightarrow> exn + string) \<Rightarrow> string \<Rightarrow> timeline
     \<Rightarrow> (exn + (string option \<times> string option)) \<times> timeline" where
  "process_message gen user_input t =
     (let conversation = conversation_of (history t)
      in if startswith user_input ''file '' then (Inl TypeError, t)
         else (case construct_message user_input ''user'' of
                 None \<Rightarrow> (Inr (None, Some ''Error: Empty message not processed.''), t)
               | Some user_message \<Rightarrow>
                   (let t1 = add_message ''user'' user_input t
                    in case gen (conversation @ [user_message]) of
                         Inr model_response \<Rightarrow>
                           (Inr (Some model_response, None), add_message ''model'' model_response t1)
                       | Inl (ModelRequestException msg model_type) \<Rightarrow>
                           (let error_message = ''Error with '' @ model_type @ '' model: '' @ msg
                            in if history t1 = [] then (Inl IndexError, t1)
                               else if role (last (history t1)) = ''user''
                               then (Inr (None, Some error_message),
                                     t1\<lparr>history := butlast (history t1)\<rparr>)
                               else (Inr (None, Some error_message), t1))
                       | Inl e \<Rightarrow> (Inl e, t1))))"

definition process_single_message ::
  "(conv_message list \<Rightarrow> exn + string) \<Rightarrow> string \<Rightarrow> timeline
     \<Rightarrow> (exn + string option) \<times> timeline" where
  "process_single_message gen user_input t =
     (case process_message gen user_input t of
        (Inl e, t') \<Rightarrow> (Inl e, t')
      | (Inr (model_response, error_message), t') \<Rightarrow>
          (Inr (if model_response \<noteq> None \<and> model_response \<noteq> Some [] then model_response
                else error_message), t'))"

section \<open>Model providers (model.py)\<close>

fun py_join :: "string \<Rightarrow> string list \<Rightarrow> string" where
  "py_join sep [] = []"
| "py_join sep [x] = x"
| "py_join sep (x # y # ys) = x @ sep @ py_join sep (y # ys)"

text \<open>\<open>str\<close> of a non-negative and of any integer, for the f-string of the status code.\<close>

function str_nat :: "nat \<Rightarrow> string" where
  "str_nat n =
     (if n < 10 then [char_of (48 + n)]
      else str_nat (n div 10) @ [char_of (48 + n mod 10)])"
  by pat_completeness auto
termination
  by (relation "measure id") auto

declare str_nat.simps [simp del]

definition str_int :: "int \<Rightarrow> string" where
  "str_int i = (if i < 0 then ''-'' @ str_nat (nat (- i)) else str_nat (nat i))"

text \<open>
  The boundary to the vendors. An HTTP response has its status code, its body text and,
  from its JSON, the \<open>text\<close> of each block under the key \<open>content\<close> (\<open>None\<close> when the key
  is absent). A boundary call returns \<open>Inl\<close> with the \<open>str\<close> of the exception the
  library raised, or \<open>Inr\<close> with what it returned.
\<close>

record http_response =
  status_code :: int
  response_text :: string
  response_content :: "string list option"

record anthropic_request =
  req_model :: string
  req_messages :: "(string \<times> string) list"
  req_max_tokens :: int
  req_system :: "string option"

datatype provider =
    AnthropicModel string "anthropic_request \<Rightarrow> string + http_response"
  | VertexAIModel string "string \<Rightarrow> string list \<Rightarrow> conv_message list \<Rightarrow> string + string"
  | GroqModel string "(string \<times> string) list \<Rightarrow> string \<Rightarrow> string + string list"

text \<open>The formatting loop of \<open>AnthropicModel.generate_content\<close>.\<close>

fun anthropic_format ::
  "conv_message list \<Rightarrow> string option \<Rightarrow> (string \<times> string) list
     \<Rightarrow> exn + (string option \<times> (string \<times> string) list)" where
  "anthropic_format [] system_message formatted = Inr (system_message, formatted)"
| "anthropic_format (m # ms) system_message formatted =
     (let r = (if cm_role m = ''model'' then ''assistant'' else cm_role m)
      in if r = ''system''
         then (case cm_parts m of
                 Some [] \<Rightarrow> Inl IndexError
               | Some (None # _) \<Rightarrow> Inl KeyError
               | Some (Some txt # _) \<Rightarrow> anthropic_format ms (Some txt) formatted
               | None \<Rightarrow>
                   anthropic_format ms
                     (Some (case cm_content m of Some c \<Rightarrow> c | None \<Rightarrow> [])) formatted)
         else (case cm_parts m of
                 Some ps \<Rightarrow>
                   anthropic_format ms system_message
                     (formatted @ [(r, py_join '' '' (List.map_filter id ps))])
               | None \<Rightarrow>
                   (case cm_content m of
                      Some c \<Rightarrow> anthropic_format ms system_message (formatted @ [(r, c)])
                    | None \<Rightarrow> anthropic_format ms system_message formatted)))"

definition anthropic_generate_content ::
  "string \<Rightarrow> (anthropic_request \<Rightarrow> string + http_response) \<Rightarrow> conv_message list \<Rightarrow> exn + string" where
  "anthropic_generate_content model_id post conversation =
     (case anthropic_format conversation None [] of
        Inl e \<Rightarrow> Inl e
      | Inr (system_message, formatted_conversation) \<Rightarrow>
          (let data = \<lparr>req_model = model_id, req_messages = formatted_conversation,
                      req_max_tokens = 1500,
                      req_system = (if system_message = None \<or> system_message = Some []
                                    then None else system_message)\<rparr>
           in case post data of
                Inl err \<Rightarrow> Inl (ApiError err)
              | Inr response \<Rightarrow>
                  if status_code response = 200
                  then (case response_content response of
                          Some (txt # _) \<Rightarrow> Inr txt
                        | _ \<Rightarrow> Inr ''Error: Unexpected response structure'')
                  else Inr (''Error: '' @ str_int (status_code response) @ '', ''
                            @ response_text response)))"

text \<open>\<open>VertexAIModel.generate_content\<close>: the first system turn, then the call without it.\<close>

fun vertex_system_instruction :: "conv_message list \<Rightarrow> exn + string list" where
  "vertex_system_instruction [] = Inr []"
| "vertex_system_instruction (m # ms) =
     (if cm_role m = ''system''
      then (case cm_parts m of
              None \<Rightarrow> Inl KeyError
            | Some [] \<Rightarrow> Inl IndexError
            | Some (None # _) \<Rightarrow> Inl KeyError
            | Some (Some txt # _) \<Rightarrow> Inr [txt])
      else vertex_system_instruction ms)"

definition vertex_generate_content ::
  "string \<Rightarrow> (string \<Rightarrow> string list \<Rightarrow> conv_message list \<Rightarrow> string + string)
     \<Rightarrow> conv_message list \<Rightarrow> exn + string" where
  "vertex_generate_content model_id call conversation =
     (case vertex_system_instruction conversation of
        Inl e \<Rightarrow> Inl e
      | Inr system_instruction \<Rightarrow>
          (let filtered_conversation = filter (\<lambda>msg. cm_role msg \<noteq> ''system'') conversation
           in case call model_id system_instruction filtered_conversation of
                Inl err \<Rightarrow> Inl (ApiError err)
              | Inr txt \<Rightarrow> Inr txt))"

text \<open>\<open>GroqModel._convert_conversation_format\<close> and \<open>GroqModel.generate_content\<close>.\<close>

text \<open>
  The two assignments in the loop body: \<open>role\<close> (\<open>model\<close> becomes \<open>assistant\<close>) and
  \<open>content\<close> (the key \<open>content\<close> if present, else the joined \<open>text\<close> of the parts).
\<close>

definition turn_role :: "conv_message \<Rightarrow> string" where
  "turn_role m = (if cm_role m = ''model'' then ''assistant'' else cm_role m)"

definition turn_content :: "conv_message \<Rightarrow> string" where
  "turn_content m =
     (case cm_content m of
        Some c \<Rightarrow> c
      | None \<Rightarrow> py_join '' '' (List.map_filter id (case cm_parts m of Some ps \<Rightarrow> ps | None \<Rightarrow> [])))"

fun convert_turns :: "conv_message list \<Rightarrow> (string \<times> string) list" where
  "convert_turns [] = []"
| "convert_turns (m # ms) =
     (let r = turn_role m; content = turn_content m
      in if content \<noteq> [] then (r, content) # convert_turns ms else convert_turns ms)"

definition convert_conversation_format :: "conv_message list \<Rightarrow> (string \<times> string) list" where
  "convert_conversation_format conversation =
     (let converted_conversation = convert_turns conversation
      in if \<not> list_ex (\<lambda>msg. fst msg = ''system'') converted_conversation
         then py_insert 0 (''system'', ''You are a helpful assistant.'') converted_conversation
         else converted_conversation)"

definition groq_generate_content ::
  "string \<Rightarrow> ((string \<times> string) list \<Rightarrow> string \<Rightarrow> string + string list)
     \<Rightarrow> conv_message list \<Rightarrow> exn + string" where
  "groq_generate_content model_id create conversation =
     (let converted_conversation = convert_conversation_format conversation
      in case create converted_conversation model_id of
           Inl err \<Rightarrow> Inr (''Error generating content: '' @ err)
         | Inr [] \<Rightarrow> Inr (''Error generating content: '' @ ''list index out of range'')
         | Inr (c # _) \<Rightarrow> Inr c)"

fun generate_content :: "provider \<Rightarrow> conv_message list \<Rightarrow> exn + string" where
  "generate_content (AnthropicModel model_id post) conversation =
     anthropic_generate_content model_id post conversation"
| "generate_content (VertexAIModel model_id call) conversation =
     vertex_generate_content model_id call conversation"
| "generate_content (GroqModel model_id create) conversation =
     groq_generate_content model_id create conversation"


section \<open>Dialog managers (bck\_dialog\_manager.py)\<close>

text \<open>
  A \<open>CommandProcessor\<close> is the pair of its Timeline and its model (its command table
  and the two configured paths play no part here). Processors are objects: the store
  maps a reference to the processor's current state, and a cache holds references, so
  that two cache hits for one key are the same object exactly when the references are
  equal.
\<close>

record processor =
  proc_timeline :: timeline
  proc_model :: provider

text \<open>
  Modelled from the spec: class \<open>Agent\<close> (agent.py is not among the sources). An agent
  has an identity (\<open>id\<close>, \<open>name\<close>) and its initial \<open>content\<close>, which \<open>prepare_agent\<close>
  hands to \<open>Timeline.load\<close>; \<open>agent_obj\<close> tells two Agent objects apart as dictionary
  keys. \<open>register_with_dialog_manager\<close> records the router on the agent and leaves the
  router's cache alone.
\<close>

record agent =
  agent_obj :: nat
  agent_id :: string
  agent_name :: string
  agent_content :: string

text \<open>
  What the managers take from \<open>LLMConfigManager\<close>, the model constructors and the disk:
  parameters of the model, each with the exception it may raise.
\<close>

record env =
  select_model :: "exn + string"
  get_provider_from_model :: "string \<Rightarrow> exn + string"
  get_model_id :: "string \<Rightarrow> exn + string"
  new_anthropic :: "string \<Rightarrow> exn + provider"
  new_vertex :: "string \<Rightarrow> exn + provider"
  new_groq :: "string \<Rightarrow> exn + provider"
  full_path_of :: "string \<Rightarrow> string"
  path_exists :: "string \<Rightarrow> bool"
  read_timeline :: "string \<Rightarrow> exn + persisted"
  text_files :: disk

text \<open>
  \<open>ModelManager\<close>. In \<open>initialize_model\<close> the groq branch calls \<open>GroqModel()\<close> without
  the \<open>model_id\<close> its constructor requires, which is a TypeError.
\<close>

definition initialize_model :: "env \<Rightarrow> string \<Rightarrow> exn + provider" where
  "initialize_model ev model_name =
     (if model_name = ''anthropic''
      then (case get_model_id ev ''anthropic'' of Inl e \<Rightarrow> Inl e | Inr model_id \<Rightarrow> new_anthropic ev model_id)
      else if model_name = ''google-vertex''
      then (case get_model_id ev ''google-vertex'' of Inl e \<Rightarrow> Inl e | Inr model_id \<Rightarrow> new_vertex ev model_id)
      else if model_name = ''groq''
      then (case get_model_id ev ''groq'' of Inl e \<Rightarrow> Inl e | Inr model_id \<Rightarrow> Inl TypeError)
      else Inl (ValueError (''Unsupported model: '' @ model_name)))"

definition initialize_model_with_id :: "env \<Rightarrow> string \<Rightarrow> string \<Rightarrow> exn + provider" where
  "initialize_model_with_id ev prov model_id =
     (if prov = ''anthropic'' then new_anthropic ev model_id
      else if prov = ''google-vertex'' then new_vertex ev model_id
      else if prov = ''groq'' then new_groq ev model_id
      else Inl (ValueError (''Unsupported provider: '' @ prov)))"

record basic_manager =
  dialogs :: "string \<rightharpoonup> nat"
  active_dialog :: "string option"
  bm_model_name :: "string option"
  bm_objects :: "nat \<Rightarrow> processor"
  bm_next :: nat

text \<open>\<open>BasicDialogManager.load_dialog\<close>: the returned processor's reference, or the exception.\<close>

definition load_dialog :: "env \<Rightarrow> string \<Rightarrow> basic_manager \<Rightarrow> (exn + nat) \<times> basic_manager" where
  "load_dialog ev filename s =
     (case dialogs s filename of
        Some r \<Rightarrow> (Inr r, s\<lparr>active_dialog := Some filename\<rparr>)
      | None \<Rightarrow>
          (case (case bm_model_name s of None \<Rightarrow> select_model ev | Some n \<Rightarrow> Inr n) of
             Inl e \<Rightarrow> (Inl e, s)
           | Inr name \<Rightarrow>
               (let s1 = s\<lparr>bm_model_name := Some name\<rparr>
                in case initialize_model ev name of
                     Inl e \<Rightarrow> (Inl e, s1)
                   | Inr model \<Rightarrow>
                       (let full_path = full_path_of ev filename
                        in if \<not> path_exists ev full_path
                           then (Inl (FileNotFoundError (''Dialog file not found: '' @ full_path)), s1)
                           else (case read_timeline ev full_path of
                                   Inl e \<Rightarrow> (Inl e, s1)
                                 | Inr data \<Rightarrow>
                                     (case load (text_files ev) full_path data Timeline_init of
                                        Inl e \<Rightarrow> (Inl e, s1)
                                      | Inr tline \<Rightarrow>
                                          (let r = bm_next s1
                                           in (Inr r,
                                               s1\<lparr>dialogs := (dialogs s1)(filename \<mapsto> r),
                                                   active_dialog := Some filename,
                                                   bm_objects := (bm_objects s1)
                                                     (r := \<lparr>proc_timeline = tline, proc_model = model\<rparr>),
                                                   bm_next := r + 1\<rparr>))))))))"

record agent_manager =
  agents :: "agent list"
  processors :: "agent \<rightharpoonup> nat"
  active_agent :: "agent option"
  am_model_name :: "string option"
  am_objects :: "nat \<Rightarrow> processor"
  am_next :: nat

text \<open>\<open>AgentDialogManager.prepare_agent\<close> (the tracer only observes).\<close>

definition prepare_agent :: "env \<Rightarrow> agent \<Rightarrow> agent_manager \<Rightarrow> (exn + nat) \<times> agent_manager" where
  "prepare_agent ev a s =
     (case processors s a of
        Some r \<Rightarrow> (Inr r, s\<lparr>active_agent := Some a\<rparr>)
      | None \<Rightarrow>
          (case (if am_model_name s = None \<or> am_model_name s = Some []
                 then (case select_model ev of
                         Inl e \<Rightarrow> Inl (ModelConfigurationError ''Failed to select or configure the model.'')
                       | Inr n \<Rightarrow> Inr n)
                 else Inr (the (am_model_name s))) of
             Inl e \<Rightarrow> (Inl e, s)
           | Inr name \<Rightarrow>
               (let s1 = s\<lparr>am_model_name := Some name\<rparr>
                in case get_provider_from_model ev name of
                     Inl e \<Rightarrow> (Inl e, s1)
                   | Inr prov \<Rightarrow>
                       (case initialize_model_with_id ev prov name of
                          Inl e \<Rightarrow> (Inl e, s1)
                        | Inr model \<Rightarrow>
                            (case read_timeline ev (agent_content a) of
                               Inl e \<Rightarrow> (Inl e, s1)
                             | Inr data \<Rightarrow>
                                 (case load (text_files ev) (agent_content a) data Timeline_init of
                                    Inl e \<Rightarrow> (Inl e, s1)
                                  | Inr tline \<Rightarrow>
                                      (let r = am_next s1
                                       in (Inr r,
                                           s1\<lparr>processors := (processors s1)(a \<mapsto> r),
                                               active_agent := Some a,
                                               am_objects := (am_objects s1)
                                                 (r := \<lparr>proc_timeline = tline, proc_model = model\<rparr>),
                                               am_next := r + 1\<rparr>))))))))"

text \<open>
  \<open>AgentDialogManager.message\<close> for an argument that is an Agent. \<open>len(result)\<close> is a
  TypeError when \<open>process_single_message\<close> returned \<open>None\<close>.
\<close>

definition agent_message ::
  "agent \<Rightarrow> string \<Rightarrow> agent_manager \<Rightarrow> (exn + string) \<times> agent_manager" where
  "agent_message a user_input s =
     (case processors s a of
        None \<Rightarrow> (Inl (AgentNotPreparedError ''The provided agent is not prepared''), s)
      | Some r \<Rightarrow>
          (let s1 = s\<lparr>active_agent := Some a\<rparr>;
               p = am_objects s1 r
           in case process_single_message (generate_content (proc_model p)) user_input
                     (proc_timeline p) of
                (res, tline) \<Rightarrow>
                  (let s2 = s1\<lparr>am_objects := (am_objects s1)(r := p\<lparr>proc_timeline := tline\<rparr>)\<rparr>
                   in case res of
                        Inl e \<Rightarrow> (Inl e, s2)
                      | Inr None \<Rightarrow> (Inl TypeError, s2)
                      | Inr (Some result) \<Rightarrow> (Inr result, s2))))"

text \<open>The life of an Agent router: any sequence of preparations and messages.\<close>

datatype agent_op = Prepare agent | Message agent string

fun agent_step :: "env \<Rightarrow> agent_op \<Rightarrow> agent_manager \<Rightarrow> agent_manager" where
  "agent_step ev (Prepare a) s = snd (prepare_agent ev a s)"
| "agent_step ev (Message a user_input) s = snd (agent_message a user_input s)"

fun agent_run :: "env \<Rightarrow> agent_op list \<Rightarrow> agent_manager \<Rightarrow> agent_manager" where
  "agent_run ev [] s = s"
| "agent_run ev (x # xs) s = agent_run ev xs (agent_step ev x s)"

fun basic_run :: "env \<Rightarrow> string list \<Rightarrow> basic_manager \<Rightarrow> basic_manager" where
  "basic_run ev [] s = s"
| "basic_run ev (f # fs) s = basic_run ev fs (snd (load_dialog ev f s))"


section \<open>Notions used to state the properties\<close>

text \<open>
  \<open>inserted_after_cursor t msg t'\<close>: \<open>t'\<close> has \<open>msg\<close> at index \<open>current_position t + 1\<close>,
  the entries of \<open>t\<close> before that index unchanged and those from it on moved one place
  up, and its cursor on that index.
\<close>

definition inserted_after_cursor :: "timeline \<Rightarrow> message \<Rightarrow> timeline \<Rightarrow> bool" where
  "inserted_after_cursor t msg t' =
     (let i = current_position t + 1
      in 0 \<le> i \<and> i \<le> int (length (history t))
         \<and> history t' = take (nat i) (history t) @ [msg] @ drop (nat i) (history t)
         \<and> py_index (history t') i = Inr msg
         \<and> current_position t' = i)"

text \<open>A timeline as \<open>load\<close> leaves it for a file whose only frozen segment is \<open>{0,2}\<close>.\<close>

definition loaded_timeline :: timeline where
  "loaded_timeline =
     \<lparr>history = [\<lparr>role = ''user'', msg_text = ''a''\<rparr>,
                 \<lparr>role = ''model'', msg_text = ''b''\<rparr>,
                 \<lparr>role = ''user'', msg_text = ''c''\<rparr>],
      current_position = 0,
      frozen_segments = [\<lparr>seg_start = 0, seg_end = 2\<rparr>],
      start_mode = ''frozen'', loaded_filename = Some ''chat.json''\<rparr>"

definition failing_provider :: "conv_message list \<Rightarrow> exn + string" where
  "failing_provider conversation = Inl (ModelRequestException ''timeout'' ''anthropic'')"

definition file_marker_timeline :: timeline where
  "file_marker_timeline =
     \<lparr>history = [\<lparr>role = ''user'', msg_text = ''File sent: notes.txt''\<rparr>],
      current_position = 0, frozen_segments = [],
      start_mode = ''interactive'', loaded_filename = None\<rparr>"

definition failing_vertex :: provider where
  "failing_vertex = VertexAIModel ''gemini'' (\<lambda>model_id system_instruction conversation. Inl ''503 unavailable'')"

definition failing_anthropic :: provider where
  "failing_anthropic =
     AnthropicModel ''claude''
       (\<lambda>data. Inr \<lparr>status_code = 500, response_text = ''overloaded'', response_content = None\<rparr>)"

definition failing_groq :: provider where
  "failing_groq = GroqModel ''llama'' (\<lambda>messages model_id. Inl ''connection refused'')"

text \<open>The request \<open>data\<close> of \<open>AnthropicModel.generate_content\<close>, as a function of the loop's result.\<close>

definition anthropic_data ::
  "string \<Rightarrow> string option \<Rightarrow> (string \<times> string) list \<Rightarrow> anthropic_request" where
  "anthropic_data model_id system_message formatted_conversation =
     \<lparr>req_model = model_id, req_messages = formatted_conversation, req_max_tokens = 1500,
      req_system = (if system_message = None \<or> system_message = Some [] then None
                    else system_message)\<rparr>"

text \<open>A small world for the routers: one configured model, one dialog file, two agents.\<close>

definition example_env :: env where
  "example_env =
     \<lparr>select_model = Inr ''anthropic'',
      get_provider_from_model = (\<lambda>name. Inr ''anthropic''),
      get_model_id = (\<lambda>model_type. Inr ''claude''),
      new_anthropic = (\<lambda>model_id. Inr (AnthropicModel model_id (\<lambda>data. Inl ''offline''))),
      new_vertex = (\<lambda>model_id. Inl (ApiError ''no credentials'')),
      new_groq = (\<lambda>model_id. Inl (ApiError ''no credentials'')),
      full_path_of = (\<lambda>filename. ''/dialogs/'' @ filename),
      path_exists = (\<lambda>path. True),
      read_timeline = (\<lambda>path. Inr (save (example_timeline\<lparr>frozen_segments := []\<rparr>) ''n'' ''d'')),
      text_files = (\<lambda>path. Inl (FileNotFoundError path))\<rparr>"

definition example_agent :: agent where
  "example_agent =
     \<lparr>agent_obj = 0, agent_id = ''helper'', agent_name = ''helper'', agent_content = ''helper.json''\<rparr>"

definition other_agent :: agent where
  "other_agent =
     \<lparr>agent_obj = 1, agent_id = ''critic'', agent_name = ''critic'', agent_content = ''critic.json''\<rparr>"

definition new_agent_manager :: agent_manager where
  "new_agent_manager =
     \<lparr>agents = [example_agent, other_agent], processors = Map.empty, active_agent = None,
      am_model_name = None,
      am_objects = (\<lambda>r. \<lparr>proc_timeline = Timeline_init, proc_model = failing_groq\<rparr>),
      am_next = 0\<rparr>"

definition new_basic_manager :: basic_manager where
  "new_basic_manager =
     \<lparr>dialogs = Map.empty, active_dialog = None, bm_model_name = None,
      bm_objects = (\<lambda>r. \<lparr>proc_timeline = Timeline_init, proc_model = failing_groq\<rparr>),
      bm_next = 0\<rparr>"

text \<open>
  \<open>readable fs m\<close>: reconstructing \<open>m\<close> on the disk \<open>fs\<close> does not raise. \<open>rebuilt fs m\<close>
  is the message it then returns.
\<close>

definition readable :: "disk \<Rightarrow> message \<Rightarrow> bool" where
  "readable fs m = (case reconstruct_message fs m of Inr _ \<Rightarrow> True | Inl _ \<Rightarrow> False)"

definition rebuilt :: "disk \<Rightarrow> message \<Rightarrow> message" where
  "rebuilt fs m = (case reconstruct_message fs m of Inr m' \<Rightarrow> m' | Inl _ \<Rightarrow> m)"

text \<open>
  A disk without files, one on which the path \<open>.\<close> is a directory, and one holding
  the file \<open>notes.txt\<close>.
\<close>

definition no_files :: disk where
  "no_files path = Inl (FileNotFoundError path)"

definition directory_disk :: disk where
  "directory_disk path =
     (if path = ''.'' then Inl (IsADirectoryError path) else Inl (FileNotFoundError path))"

definition notes_disk :: disk where
  "notes_disk path =
     (if path = ''notes.txt'' then Inr ''remember'' else Inl (FileNotFoundError path))"

definition directory_marker_timeline :: timeline where
  "directory_marker_timeline =
     \<lparr>history = [\<lparr>role = ''user'', msg_text = ''hello''\<rparr>,
                 \<lparr>role = ''user'', msg_text = ''File sent: .''\<rparr>],
      current_position = 1, frozen_segments = [],
      start_mode = ''interactive'', loaded_filename = None\<rparr>"

text \<open>
  A path as a marker message can carry it unambiguously: without a line break and
  without the marker \<open>File sent: \<close> inside it.
\<close>

definition plain_path :: "string \<Rightarrow> bool" where
  "plain_path p =
     (CHR 0x0A \<notin> set p \<and> (\<forall>i<length p. \<not> startswith (drop i p) ''File sent: ''))"

text \<open>
  The turns of a conversation that the Groq conversion keeps (those with non-empty
  content), the system turns among them, and a turn as it is sent.
\<close>

definition kept_turns :: "conv_message list \<Rightarrow> conv_message list" where
  "kept_turns conversation = filter (\<lambda>m. turn_content m \<noteq> []) conversation"

definition system_turns :: "conv_message list \<Rightarrow> conv_message list" where
  "system_turns conversation = filter (\<lambda>m. cm_role m = ''system'') (kept_turns conversation)"

definition sent_turn :: "conv_message \<Rightarrow> string \<times> string" where
  "sent_turn m = (turn_role m, turn_content m)"

definition is_system :: "string \<times> string \<Rightarrow> bool" where
  "is_system msg = (fst msg = ''system'')"

section \<open>Loading a timeline with frozen segments\<close>

lemma py_index_in_range:
  "0 \<le> i \<Longrightarrow> i < int (length xs) \<Longrightarrow> py_index xs i = Inr (xs ! nat i)"
  by (simp add: py_index_def)

lemma readable_rebuilt: "readable fs m \<Longrightarrow> reconstruct_message fs m = Inr (rebuilt fs m)"
  by (simp add: readable_def rebuilt_def split: sum.splits)

lemma not_readable: "\<not> readable fs m \<Longrightarrow> \<exists>e. reconstruct_message fs m = Inl e"
  by (simp add: readable_def split: sum.splits)

lemma load_range_result:
  assumes "\<forall>i\<in>set idxs. 0 \<le> i \<and> i < int (length ih) \<and> readable fs (ih ! nat i)"
    and "distinct idxs"
  shows "\<exists>m'. load_range fs ih idxs (h, m, n)
            = Inr (h @ map (\<lambda>i. rebuilt fs (ih ! nat i)) idxs, m', n + int (length idxs))
          \<and> (\<forall>i. i \<notin> set idxs \<longrightarrow> m' i = m i)
          \<and> (\<forall>k<length idxs. m' (idxs ! k) = Some (n + int k))"
  using assms
proof (induction idxs arbitrary: h m n)
  case Nil
  then show ?case by simp
next
  case (Cons idx idxs)
  let ?h = "h @ [rebuilt fs (ih ! nat idx)]"
  let ?m = "m(idx \<mapsto> n)"
  from Cons.prems have rest: "\<forall>i\<in>set idxs. 0 \<le> i \<and> i < int (length ih) \<and> readable fs (ih ! nat i)"
    "distinct idxs"
    and hd: "0 \<le> idx" "idx < int (length ih)" "idx \<notin> set idxs" "readable fs (ih ! nat idx)"
    by auto
  from Cons.IH [OF rest, of ?h ?m "n + 1"] obtain m' where
    run: "load_range fs ih idxs (?h, ?m, n + 1)
            = Inr (?h @ map (\<lambda>i. rebuilt fs (ih ! nat i)) idxs, m', n + 1 + int (length idxs))"
    and out: "\<forall>i. i \<notin> set idxs \<longrightarrow> m' i = ?m i"
    and inn: "\<forall>k<length idxs. m' (idxs ! k) = Some (n + 1 + int k)"
    by blast
  have "load_range fs ih (idx # idxs) (h, m, n)
          = Inr (h @ map (\<lambda>i. rebuilt fs (ih ! nat i)) (idx # idxs), m',
                 n + int (length (idx # idxs)))"
    using run hd by (simp add: py_index_in_range readable_rebuilt add.commute add.left_commute)
  moreover have "\<forall>i. i \<notin> set (idx # idxs) \<longrightarrow> m' i = m i"
    using out by auto
  moreover have "\<forall>k<length (idx # idxs). m' ((idx # idxs) ! k) = Some (n + int k)"
  proof (intro allI impI)
    fix k assume k: "k < length (idx # idxs)"
    show "m' ((idx # idxs) ! k) = Some (n + int k)"
    proof (cases k)
      case 0
      then show ?thesis using out hd by simp
    next
      case (Suc j)
      then show ?thesis using inn k by (simp add: add.commute add.left_commute)
    qed
  qed
  ultimately show ?case by blast
qed

lemma load_range_raises:
  assumes "\<forall>i\<in>set idxs. 0 \<le> i \<and> i < int (length ih)"
    and "\<not> (\<forall>i\<in>set idxs. readable fs (ih ! nat i))"
  shows "\<exists>e i. i \<in> set idxs \<and> reconstruct_message fs (ih ! nat i) = Inl e
           \<and> load_range fs ih idxs st = Inl e"
  using assms
proof (induction idxs arbitrary: st)
  case Nil
  then show ?case by simp
next
  case (Cons idx idxs)
  obtain h m n where st: "st = (h, m, n)" by (cases st) auto
  from Cons.prems have b: "0 \<le> idx" "idx < int (length ih)" by auto
  show ?case
  proof (cases "readable fs (ih ! nat idx)")
    case True
    with Cons.prems have "\<not> (\<forall>i\<in>set idxs. readable fs (ih ! nat i))"
      and "\<forall>i\<in>set idxs. 0 \<le> i \<and> i < int (length ih)" by auto
    from Cons.IH [OF this(2) this(1)] obtain e i where
      "i \<in> set idxs" "reconstruct_message fs (ih ! nat i) = Inl e"
      "load_range fs ih idxs (h @ [rebuilt fs (ih ! nat idx)], m(idx \<mapsto> n), n + 1) = Inl e"
      by blast
    then show ?thesis using b True st
      by (auto simp: py_index_in_range readable_rebuilt)
  next
    case False
    then obtain e where "reconstruct_message fs (ih ! nat idx) = Inl e"
      using not_readable by blast
    then show ?thesis using b st by (auto simp: py_index_in_range)
  qed
qed

lemma map_nth_upto:
  assumes "0 \<le> a" and "b < int (length xs)"
  shows "map (\<lambda>i. f (xs ! nat i)) [a..b] = map f (take (nat (b - a + 1)) (drop (nat a) xs))"
proof (rule nth_equalityI)
  show "length (map (\<lambda>i. f (xs ! nat i)) [a..b]) = length (map f (take (nat (b - a + 1)) (drop (nat a) xs)))"
    using assms by auto
next
  fix k assume "k < length (map (\<lambda>i. f (xs ! nat i)) [a..b])"
  then have k: "int k < b - a + 1" by auto
  then have "[a..b] ! k = a + int k" by (simp add: nth_upto)
  moreover have "nat (a + int k) = nat a + k" using assms by (simp add: nat_add_distrib)
  ultimately show "map (\<lambda>i. f (xs ! nat i)) [a..b] ! k = map f (take (nat (b - a + 1)) (drop (nat a) xs)) ! k"
    using k assms by (simp add: nth_upto)
qed

lemma slice_upto:
  "in_bounds (length ih) s \<Longrightarrow> slice ih s = map (\<lambda>i. ih ! nat i) [seg_start s..seg_end s]"
  using map_nth_upto [of "seg_start s" "seg_end s" ih id]
  by (simp add: slice_def in_bounds_def)

lemma load_range_segment:
  assumes "in_bounds (length ih) s" and "list_all (readable fs) (slice ih s)"
  shows "\<exists>m'. load_range fs ih [seg_start s..seg_end s] (h, m, n)
            = Inr (h @ map (rebuilt fs) (slice ih s), m', n + (seg_end s - seg_start s) + 1)
          \<and> (\<forall>i. i < seg_start s \<or> seg_end s < i \<longrightarrow> m' i = m i)
          \<and> m' (seg_start s) = Some n
          \<and> m' (seg_end s) = Some (n + (seg_end s - seg_start s))"
proof -
  let ?a = "seg_start s" and ?b = "seg_end s"
  from assms have b: "0 \<le> ?a" "?a \<le> ?b" "?b < int (length ih)"
    by (simp_all add: in_bounds_def)
  have rd: "\<forall>i\<in>set [?a..?b]. readable fs (ih ! nat i)"
    using assms(2) by (simp add: slice_upto [OF assms(1)] list_all_iff)
  have "\<forall>i\<in>set [?a..?b]. 0 \<le> i \<and> i < int (length ih) \<and> readable fs (ih ! nat i)"
    using b rd by auto
  from load_range_result [OF this distinct_upto, of h m n] obtain m' where
    run: "load_range fs ih [?a..?b] (h, m, n)
            = Inr (h @ map (\<lambda>i. rebuilt fs (ih ! nat i)) [?a..?b], m', n + int (length [?a..?b]))"
    and out: "\<forall>i. i \<notin> set [?a..?b] \<longrightarrow> m' i = m i"
    and inn: "\<forall>k<length [?a..?b]. m' ([?a..?b] ! k) = Some (n + int k)"
    by blast
  have len: "int (length [?a..?b]) = ?b - ?a + 1" using b by simp
  have "m' ([?a..?b] ! 0) = Some (n + int 0)" using inn b by (intro inn [rule_format]) simp
  then have first: "m' ?a = Some n" using b by (simp add: nth_upto)
  have "m' ([?a..?b] ! nat (?b - ?a)) = Some (n + int (nat (?b - ?a)))"
    using b by (intro inn [rule_format]) simp
  then have last: "m' ?b = Some (n + (?b - ?a))" using b by (simp add: nth_upto)
  have "load_range fs ih [?a..?b] (h, m, n)
          = Inr (h @ map (rebuilt fs) (slice ih s), m', n + (?b - ?a) + 1)"
    using run len b by (simp add: map_nth_upto slice_def)
  with out first last show ?thesis by auto
qed

lemma load_range_segment_raises:
  assumes "in_bounds (length ih) s" and "\<not> list_all (readable fs) (slice ih s)"
  shows "\<exists>e msg. msg \<in> set (slice ih s) \<and> reconstruct_message fs msg = Inl e
           \<and> load_range fs ih [seg_start s..seg_end s] st = Inl e"
proof -
  from assms(1) have b: "\<forall>i\<in>set [seg_start s..seg_end s]. 0 \<le> i \<and> i < int (length ih)"
    by (auto simp: in_bounds_def)
  have "\<not> (\<forall>i\<in>set [seg_start s..seg_end s]. readable fs (ih ! nat i))"
    using assms(2) by (simp add: slice_upto [OF assms(1)] list_all_iff)
  from load_range_raises [OF b this, of st] obtain e i where
    "i \<in> set [seg_start s..seg_end s]" "reconstruct_message fs (ih ! nat i) = Inl e"
    "load_range fs ih [seg_start s..seg_end s] st = Inl e" by blast
  moreover from this(1) have "ih ! nat i \<in> set (slice ih s)"
    by (simp add: slice_upto [OF assms(1)])
  ultimately show ?thesis by blast
qed

lemma agrees_cong:
  "agrees m ss n \<Longrightarrow> \<forall>i\<in>covered ss. m' i = m i \<Longrightarrow> list_all (\<lambda>s. seg_start s \<le> seg_end s) ss
     \<Longrightarrow> agrees m' ss n"
  by (induction ss arbitrary: n) (auto simp: covered_def)

lemma load_segments_result:
  assumes "list_all (in_bounds (length ih)) segs" and "sorted_wrt disjoint_seg segs"
    and "list_all (readable fs) (concat (map (slice ih) segs))"
  shows "\<exists>m'. load_segments fs ih segs (h, m, n)
            = Inr (h @ map (rebuilt fs) (concat (map (slice ih) segs)), m', n + total_len segs)
          \<and> (\<forall>i. i \<notin> covered segs \<longrightarrow> m' i = m i)
          \<and> agrees m' segs n"
  using assms
proof (induction segs arbitrary: h m n)
  case Nil
  then show ?case by (simp add: covered_def)
next
  case (Cons s ss)
  from Cons.prems have s: "in_bounds (length ih) s"
    and ss: "list_all (in_bounds (length ih)) ss" "sorted_wrt disjoint_seg ss"
    and dis: "\<forall>u\<in>set ss. disjoint_seg s u"
    and rs: "list_all (readable fs) (slice ih s)"
    and rss: "list_all (readable fs) (concat (map (slice ih) ss))"
    by auto
  from s have le: "seg_start s \<le> seg_end s" by (simp add: in_bounds_def)
  let ?h1 = "h @ map (rebuilt fs) (slice ih s)"
  let ?n1 = "n + (seg_end s - seg_start s) + 1"
  from load_range_segment [OF s rs, of h m n] obtain m1 where
    r1: "load_range fs ih [seg_start s..seg_end s] (h, m, n) = Inr (?h1, m1, ?n1)"
    and out1: "\<forall>i. i < seg_start s \<or> seg_end s < i \<longrightarrow> m1 i = m i"
    and st1: "m1 (seg_start s) = Some n"
    and en1: "m1 (seg_end s) = Some (n + (seg_end s - seg_start s))"
    by blast
  from Cons.IH [OF ss rss, of ?h1 m1 ?n1] obtain m' where
    r2: "load_segments fs ih ss (?h1, m1, ?n1)
           = Inr (?h1 @ map (rebuilt fs) (concat (map (slice ih) ss)), m', ?n1 + total_len ss)"
    and out2: "\<forall>i. i \<notin> covered ss \<longrightarrow> m' i = m1 i"
    and ag2: "agrees m' ss ?n1"
    by blast
  have notcov: "seg_start s \<notin> covered ss" "seg_end s \<notin> covered ss"
    using dis le by (auto simp: covered_def disjoint_seg_def)
  have "load_segments fs ih (s # ss) (h, m, n)
          = Inr (h @ map (rebuilt fs) (concat (map (slice ih) (s # ss))), m',
                 n + total_len (s # ss))"
    using r1 r2 by (simp add: add.assoc)
  moreover have "\<forall>i. i \<notin> covered (s # ss) \<longrightarrow> m' i = m i"
    using out1 out2 by (auto simp: covered_def)
  moreover have "agrees m' (s # ss) n"
    using ag2 st1 en1 out2 notcov by simp
  ultimately show ?case by blast
qed

lemma load_segments_raises:
  assumes "list_all (in_bounds (length ih)) segs"
    and "\<not> list_all (readable fs) (concat (map (slice ih) segs))"
  shows "\<exists>e msg. msg \<in> set (concat (map (slice ih) segs)) \<and> reconstruct_message fs msg = Inl e
           \<and> load_segments fs ih segs st = Inl e"
  using assms
proof (induction segs arbitrary: st)
  case Nil
  then show ?case by simp
next
  case (Cons s ss)
  from Cons.prems have s: "in_bounds (length ih) s" and ss: "list_all (in_bounds (length ih)) ss"
    by auto
  obtain h m n where st: "st = (h, m, n)" by (cases st) auto
  show ?case
  proof (cases "list_all (readable fs) (slice ih s)")
    case True
    with Cons.prems(2) have nr: "\<not> list_all (readable fs) (concat (map (slice ih) ss))" by simp
    from load_range_segment [OF s True, of h m n] obtain st1 where
      r1: "load_range fs ih [seg_start s..seg_end s] (h, m, n) = Inr st1" by blast
    from Cons.IH [OF ss nr, of st1] obtain e msg where
      "msg \<in> set (concat (map (slice ih) ss))" "reconstruct_message fs msg = Inl e"
      "load_segments fs ih ss st1 = Inl e" by blast
    then show ?thesis using r1 st by auto
  next
    case False
    from load_range_segment_raises [OF s False, of st] obtain e msg where
      "msg \<in> set (slice ih s)" "reconstruct_message fs msg = Inl e"
      "load_range fs ih [seg_start s..seg_end s] st = Inl e" by blast
    then show ?thesis by auto
  qed
qed

lemma remap_segments_agrees:
  "agrees m segs n \<Longrightarrow> remap_segments m segs = Inr (remap_spec segs n)"
  by (induction segs arbitrary: n) auto

lemma tiles_remap_spec:
  "list_all (\<lambda>s. seg_start s \<le> seg_end s) segs \<Longrightarrow> tiles n (remap_spec segs n) (n + total_len segs)"
proof (induction segs arbitrary: n)
  case Nil
  then show ?case by simp
next
  case (Cons s ss)
  then have "tiles (n + (seg_end s - seg_start s) + 1) (remap_spec ss (n + (seg_end s - seg_start s) + 1))
               (n + (seg_end s - seg_start s) + 1 + total_len ss)"
    by simp
  moreover have "n + (seg_end s - seg_start s) + 1 + total_len ss = n + total_len (s # ss)"
    by simp
  ultimately show ?case using Cons.prems by simp
qed

lemma length_slices:
  "list_all (in_bounds (length ih)) segs \<Longrightarrow> int (length (concat (map (slice ih) segs))) = total_len segs"
  by (induction segs) (auto simp: slice_def in_bounds_def)

lemma slice_map: "slice (map f xs) s = map f (slice xs s)"
  by (simp add: slice_def take_map drop_map)

lemma slice_length: "in_bounds (length ih) s \<Longrightarrow> int (length (slice ih s)) = seg_end s - seg_start s + 1"
  by (auto simp: slice_def in_bounds_def)

lemma slice_remap_spec:
  assumes "list_all (in_bounds (length ih)) segs" and "k < length segs"
  shows "slice (pre @ concat (map (slice ih) segs)) (remap_spec segs (int (length pre)) ! k)
           = slice ih (segs ! k)"
  using assms
proof (induction segs arbitrary: pre k)
  case Nil
  then show ?case by simp
next
  case (Cons s ss)
  from Cons.prems have s: "in_bounds (length ih) s" and ss: "list_all (in_bounds (length ih)) ss"
    by auto
  have len: "int (length (slice ih s)) = seg_end s - seg_start s + 1"
    by (rule slice_length [OF s])
  show ?case
  proof (cases k)
    case 0
    have "nat (seg_end s - seg_start s + 1) = length (slice ih s)" using len by simp
    then show ?thesis using 0 by (simp add: slice_def)
  next
    case (Suc j)
    with Cons.prems have j: "j < length ss" by simp
    have off: "int (length pre) + (seg_end s - seg_start s) + 1 = int (length (pre @ slice ih s))"
      using len by simp
    from Cons.IH [OF ss j, of "pre @ slice ih s"] show ?thesis
      using Suc by (simp add: off del: length_append)
  qed
qed

lemma length_remap_spec: "length (remap_spec segs n) = length segs"
  by (induction segs arbitrary: n) auto

lemma valid_segmentsD:
  "valid_segments n segs \<Longrightarrow> list_all (in_bounds n) segs \<and> sorted_wrt disjoint_seg segs"
  by (simp add: valid_segments_def)

lemma rebuilt_all:
  "list_all (readable fs) xs
     \<Longrightarrow> list_all2 (\<lambda>m m'. reconstruct_message fs m = Inr m') xs (map (rebuilt fs) xs)"
  by (induction xs) (simp_all add: readable_rebuilt)

lemma reconstruct_message_plain:
  "\<not> startswith (msg_text m) ''File sent: '' \<Longrightarrow> reconstruct_message fs m = Inr m"
  by (simp add: reconstruct_message_def)

lemma plain_readable:
  "\<not> startswith (msg_text m) ''File sent: '' \<Longrightarrow> readable fs m \<and> rebuilt fs m = m"
  by (simp add: readable_def rebuilt_def reconstruct_message_plain)

lemma reconstruct_message_role: "reconstruct_message fs m = Inr m' \<Longrightarrow> role m' = role m"
  by (auto simp: reconstruct_message_def Let_def split: if_splits sum.splits exn.splits)

text \<open>The timeline that the frozen branch of load builds when no read raises.\<close>

lemma load_frozen:
  assumes "p_frozenSegments data \<noteq> []"
    and "list_all (in_bounds (length (p_history data))) (p_frozenSegments data)"
    and "sorted_wrt disjoint_seg (p_frozenSegments data)"
    and "list_all (readable fs) (concat (map (slice (p_history data)) (p_frozenSegments data)))"
  shows "load fs filename data t =
           Inr (t\<lparr>history := map (rebuilt fs) (concat (map (slice (p_history data)) (p_frozenSegments data))),
                  current_position := 0,
                  frozen_segments := remap_spec (p_frozenSegments data) 0,
                  start_mode := p_startMode data,
                  loaded_filename := Some filename\<rparr>)"
proof -
  let ?segs = "p_frozenSegments data" and ?ih = "p_history data"
  from load_segments_result [OF assms(2,3,4), of "[]" Map.empty 0] obtain m' where
    run: "load_segments fs ?ih ?segs ([], Map.empty, 0)
            = Inr (map (rebuilt fs) (concat (map (slice ?ih) ?segs)), m', total_len ?segs)"
    and ag: "agrees m' ?segs 0"
    by auto
  from assms(1) obtain s ss where sp: "?segs = s # ss" by (cases ?segs) auto
  have rm: "remap_segments m' ?segs = Inr (remap_spec ?segs 0)"
    by (rule remap_segments_agrees [OF ag])
  define r0 where "r0 = \<lparr>seg_start = 0, seg_end = 0 + (seg_end s - seg_start s)\<rparr>"
  define rest where "rest = remap_spec ss (0 + (seg_end s - seg_start s) + 1)"
  have rs: "remap_spec ?segs 0 = r0 # rest" by (simp add: sp r0_def rest_def)
  have r0: "seg_start r0 = 0" by (simp add: r0_def)
  show ?thesis
    using assms(1) by (simp add: load_def Let_def run rm rs r0)
qed

lemma load_frozen_raises:
  assumes "p_frozenSegments data \<noteq> []"
    and "list_all (in_bounds (length (p_history data))) (p_frozenSegments data)"
    and "\<not> list_all (readable fs) (concat (map (slice (p_history data)) (p_frozenSegments data)))"
  shows "\<exists>e msg. msg \<in> set (concat (map (slice (p_history data)) (p_frozenSegments data)))
           \<and> reconstruct_message fs msg = Inl e \<and> load fs filename data t = Inl e"
proof -
  from load_segments_raises [OF assms(2,3), of "([], Map.empty, 0)"] obtain e msg where
    "msg \<in> set (concat (map (slice (p_history data)) (p_frozenSegments data)))"
    "reconstruct_message fs msg = Inl e"
    "load_segments fs (p_history data) (p_frozenSegments data) ([], Map.empty, 0) = Inl e"
    by blast
  then show ?thesis using assms(1) by (auto simp: load_def Let_def)
qed

lemma slice_in_kept:
  "k < length segs \<Longrightarrow> set (slice ih (segs ! k)) \<subseteq> set (concat (map (slice ih) segs))"
proof -
  assume "k < length segs"
  then have "segs ! k \<in> set segs" by simp
  then show ?thesis by auto
qed

text \<open>
  Claim C4. For a persisted timeline whose frozen segments are non-empty, in bounds,
  disjoint and sorted by start: \<open>load\<close> returns whenever every message inside the
  segments can be reconstructed (no re-read of a \<open>File sent: \<close> file raises anything but
  \<open>FileNotFoundError\<close>). Whenever it returns, the loaded history is exactly the
  reconstructed messages of the segments, in segment order, everything outside being
  dropped; the segments are renumbered to where they now lie, in the same order
  (segment \<open>k\<close> of the new list cuts from the new history what segment \<open>k\<close> of the file
  cut from the persisted one); the cursor is the start of the first renumbered
  segment. When it raises, the exception is the one that reconstructing a message
  inside a segment raised. For the single segment \<open>{2,4}\<close> the load gives three
  messages, the segment \<open>{0,2}\<close> and the cursor 0.
\<close>

theorem load_frozen_keeps_segments:
  assumes "p_frozenSegments data \<noteq> []"
    and "valid_segments (length (p_history data)) (p_frozenSegments data)"
  shows "(list_all (readable fs) (concat (map (slice (p_history data)) (p_frozenSegments data)))
            \<longrightarrow> (\<exists>t'. load fs filename data t = Inr t'))
         \<and> (\<forall>t'. load fs filename data t = Inr t' \<longrightarrow>
               list_all2 (\<lambda>m m'. reconstruct_message fs m = Inr m')
                 (concat (map (slice (p_history data)) (p_frozenSegments data))) (history t')
               \<and> frozen_segments t' = remap_spec (p_frozenSegments data) 0
               \<and> length (frozen_segments t') = length (p_frozenSegments data)
               \<and> (\<forall>k<length (p_frozenSegments data).
                     list_all2 (\<lambda>m m'. reconstruct_message fs m = Inr m')
                       (slice (p_history data) (p_frozenSegments data ! k))
                       (slice (history t') (frozen_segments t' ! k)))
               \<and> current_position t' = seg_start (hd (frozen_segments t')))
         \<and> (\<forall>e. load fs filename data t = Inl e \<longrightarrow>
               (\<exists>msg\<in>set (concat (map (slice (p_history data)) (p_frozenSegments data))).
                  reconstruct_message fs msg = Inl e))"
proof (cases "list_all (readable fs) (concat (map (slice (p_history data)) (p_frozenSegments data)))")
  case True
  let ?segs = "p_frozenSegments data" and ?ih = "p_history data"
  from valid_segmentsD [OF assms(2)] have b: "list_all (in_bounds (length ?ih)) ?segs"
    and d: "sorted_wrt disjoint_seg ?segs" by simp_all
  let ?t' = "t\<lparr>history := map (rebuilt fs) (concat (map (slice ?ih) ?segs)),
                current_position := 0,
                frozen_segments := remap_spec ?segs 0,
                start_mode := p_startMode data,
                loaded_filename := Some filename\<rparr>"
  have run: "load fs filename data t = Inr ?t'"
    by (rule load_frozen [OF assms(1) b d True])
  have all: "list_all2 (\<lambda>m m'. reconstruct_message fs m = Inr m')
               (concat (map (slice ?ih) ?segs)) (history ?t')"
    using rebuilt_all [OF True] by simp
  have sl: "\<forall>k<length ?segs. list_all2 (\<lambda>m m'. reconstruct_message fs m = Inr m')
              (slice ?ih (?segs ! k)) (slice (history ?t') (frozen_segments ?t' ! k))"
  proof (intro allI impI)
    fix k assume k: "k < length ?segs"
    have "list_all (readable fs) (slice ?ih (?segs ! k))"
      using True slice_in_kept [OF k, of ?ih] by (auto simp: list_all_iff)
    from rebuilt_all [OF this] slice_remap_spec [OF b k, of "[]"]
    show "list_all2 (\<lambda>m m'. reconstruct_message fs m = Inr m')
              (slice ?ih (?segs ! k)) (slice (history ?t') (frozen_segments ?t' ! k))"
      by (simp add: slice_map)
  qed
  from assms(1) obtain s ss where sp: "?segs = s # ss" by (cases ?segs) auto
  have hd0: "current_position ?t' = seg_start (hd (frozen_segments ?t'))"
    by (simp add: sp)
  show ?thesis
    using run all sl hd0 by (simp add: length_remap_spec)
next
  case False
  from valid_segmentsD [OF assms(2)]
  have b: "list_all (in_bounds (length (p_history data))) (p_frozenSegments data)" by simp
  from load_frozen_raises [OF assms(1) b False, of filename t] obtain e0 msg where
    m: "msg \<in> set (concat (map (slice (p_history data)) (p_frozenSegments data)))"
      "reconstruct_message fs msg = Inl e0" "load fs filename data t = Inl e0"
    by blast
  have "\<forall>e. load fs filename data t = Inl e \<longrightarrow>
          (\<exists>msg\<in>set (concat (map (slice (p_history data)) (p_frozenSegments data))).
             reconstruct_message fs msg = Inl e)"
    using m by (metis Inl_inject)
  then show ?thesis using False m(3) by simp
qed

theorem load_frozen_keeps_segments_witness:
  "p_frozenSegments (save example_timeline ''n'' ''d'') \<noteq> []
   \<and> valid_segments (length (p_history (save example_timeline ''n'' ''d'')))
         (p_frozenSegments (save example_timeline ''n'' ''d''))
   \<and> list_all (readable no_files)
         (concat (map (slice (p_history (save example_timeline ''n'' ''d'')))
                      (p_frozenSegments (save example_timeline ''n'' ''d''))))
   \<and> (\<exists>t'. load no_files ''chat.json'' (save example_timeline ''n'' ''d'') Timeline_init = Inr t'
          \<and> history t' = [\<lparr>role = ''model'', msg_text = ''b''\<rparr>,
                           \<lparr>role = ''user'', msg_text = ''c''\<rparr>,
                           \<lparr>role = ''model'', msg_text = ''d''\<rparr>]
          \<and> frozen_segments t' = [\<lparr>seg_start = 0, seg_end = 2\<rparr>]
          \<and> current_position t' = 0)"
proof -
  let ?data = "save example_timeline ''n'' ''d''"
  have ne: "p_frozenSegments ?data \<noteq> []"
    by (simp add: save_def example_timeline_def)
  have ok: "valid_segments (length (p_history ?data)) (p_frozenSegments ?data)"
    by (simp add: save_def example_timeline_def valid_segments_def in_bounds_def)
  have sl: "concat (map (slice (p_history ?data)) (p_frozenSegments ?data))
              = [\<lparr>role = ''model'', msg_text = ''b''\<rparr>, \<lparr>role = ''user'', msg_text = ''c''\<rparr>,
                 \<lparr>role = ''model'', msg_text = ''d''\<rparr>]"
    by (simp add: save_def example_timeline_def slice_def)
  have rd: "list_all (readable no_files) (concat (map (slice (p_history ?data)) (p_frozenSegments ?data)))"
    unfolding sl by (simp add: plain_readable startswith_def)
  have rm: "remap_spec (p_frozenSegments ?data) 0 = [\<lparr>seg_start = 0, seg_end = 2\<rparr>]"
    by (simp add: save_def example_timeline_def)
  note th = load_frozen_keeps_segments [OF ne ok, where fs = no_files and filename = "''chat.json''"
      and t = Timeline_init]
  from th rd obtain t' where run: "load no_files ''chat.json'' ?data Timeline_init = Inr t'"
    by blast
  with th have "list_all2 (\<lambda>m m'. reconstruct_message no_files m = Inr m')
                  (concat (map (slice (p_history ?data)) (p_frozenSegments ?data))) (history t')"
    and fz: "frozen_segments t' = remap_spec (p_frozenSegments ?data) 0"
    and cp: "current_position t' = seg_start (hd (frozen_segments t'))"
    by blast+
  then have "history t' = [\<lparr>role = ''model'', msg_text = ''b''\<rparr>,
                           \<lparr>role = ''user'', msg_text = ''c''\<rparr>,
                           \<lparr>role = ''model'', msg_text = ''d''\<rparr>]"
    unfolding sl by (auto simp: list_all2_Cons1 reconstruct_message_plain startswith_def)
  with run fz cp rm ne ok rd show ?thesis by simp
qed

text \<open>
  Claim C10. Under the same conditions, whenever \<open>load\<close> returns the renumbered
  segments tile the loaded history: the first starts at index 0, each next one starts
  right after the end of the one before, and the last ends at the last index. So the
  cursor is 0 after the load, and a \<open>save\<close> made right after it writes the start mode
  \<open>frozen\<close>. \<open>load\<close> returns whenever every message inside the segments can be
  reconstructed, and raises only what such a reconstruction raised.
\<close>

theorem load_frozen_tiles_history:
  assumes "p_frozenSegments data \<noteq> []"
    and "valid_segments (length (p_history data)) (p_frozenSegments data)"
  shows "(list_all (readable fs) (concat (map (slice (p_history data)) (p_frozenSegments data)))
            \<longrightarrow> (\<exists>t'. load fs filename data t = Inr t'))
         \<and> (\<forall>t'. load fs filename data t = Inr t' \<longrightarrow>
               tiles 0 (frozen_segments t') (int (length (history t')))
               \<and> current_position t' = 0
               \<and> p_startMode (save t' name description) = ''frozen'')
         \<and> (\<forall>e. load fs filename data t = Inl e \<longrightarrow>
               (\<exists>msg\<in>set (concat (map (slice (p_history data)) (p_frozenSegments data))).
                  reconstruct_message fs msg = Inl e))"
proof (cases "list_all (readable fs) (concat (map (slice (p_history data)) (p_frozenSegments data)))")
  case True
  let ?segs = "p_frozenSegments data" and ?ih = "p_history data"
  from valid_segmentsD [OF assms(2)] have b: "list_all (in_bounds (length ?ih)) ?segs"
    and d: "sorted_wrt disjoint_seg ?segs" by simp_all
  let ?t' = "t\<lparr>history := map (rebuilt fs) (concat (map (slice ?ih) ?segs)),
                current_position := 0,
                frozen_segments := remap_spec ?segs 0,
                start_mode := p_startMode data,
                loaded_filename := Some filename\<rparr>"
  have run: "load fs filename data t = Inr ?t'"
    by (rule load_frozen [OF assms(1) b d True])
  have le: "list_all (\<lambda>s. seg_start s \<le> seg_end s) ?segs"
    using b by (induction ?segs) (auto simp: in_bounds_def list_all_iff)
  have "tiles 0 (remap_spec ?segs 0) (0 + total_len ?segs)"
    by (rule tiles_remap_spec [OF le])
  then have ti: "tiles 0 (frozen_segments ?t') (int (length (history ?t')))"
    using length_slices [OF b] by simp
  from assms(1) obtain s ss where sp: "?segs = s # ss" by (cases ?segs) auto
  have sm: "p_startMode (save ?t' name description) = ''frozen''"
    by (simp add: save_def sp)
  show ?thesis
    using run ti sm by simp
next
  case False
  from valid_segmentsD [OF assms(2)]
  have b: "list_all (in_bounds (length (p_history data))) (p_frozenSegments data)" by simp
  from load_frozen_raises [OF assms(1) b False, of filename t] obtain e0 msg where
    m: "msg \<in> set (concat (map (slice (p_history data)) (p_frozenSegments data)))"
      "reconstruct_message fs msg = Inl e0" "load fs filename data t = Inl e0"
    by blast
  have "\<forall>e. load fs filename data t = Inl e \<longrightarrow>
          (\<exists>msg\<in>set (concat (map (slice (p_history data)) (p_frozenSegments data))).
             reconstruct_message fs msg = Inl e)"
    using m by (metis Inl_inject)
  then show ?thesis using False m(3) by simp
qed

theorem load_frozen_tiles_history_witness:
  "p_frozenSegments (save example_timeline ''n'' ''d'') \<noteq> []
   \<and> valid_segments (length (p_history (save example_timeline ''n'' ''d'')))
         (p_frozenSegments (save example_timeline ''n'' ''d''))
   \<and> list_all (readable no_files)
         (concat (map (slice (p_history (save example_timeline ''n'' ''d'')))
                      (p_frozenSegments (save example_timeline ''n'' ''d''))))
   \<and> (\<exists>t'. load no_files ''chat.json'' (save example_timeline ''n'' ''d'') Timeline_init = Inr t'
          \<and> tiles 0 (frozen_segments t') (int (length (history t')))
          \<and> current_position t' = 0
          \<and> p_startMode (save t' ''n2'' ''d2'') = ''frozen'')"
proof -
  let ?data = "save example_timeline ''n'' ''d''"
  have ne: "p_frozenSegments ?data \<noteq> []"
    by (simp add: save_def example_timeline_def)
  have ok: "valid_segments (length (p_history ?data)) (p_frozenSegments ?data)"
    by (simp add: save_def example_timeline_def valid_segments_def in_bounds_def)
  have rd: "list_all (readable no_files) (concat (map (slice (p_history ?data)) (p_frozenSegments ?data)))"
    by (simp add: save_def example_timeline_def slice_def plain_readable startswith_def)
  note th = load_frozen_tiles_history [OF ne ok, where fs = no_files and filename = "''chat.json''"
      and t = Timeline_init and name = "''n2''" and description = "''d2''"]
  from th rd obtain t' where run: "load no_files ''chat.json'' ?data Timeline_init = Inr t'"
    by blast
  with th have "tiles 0 (frozen_segments t') (int (length (history t')))
          \<and> current_position t' = 0
          \<and> p_startMode (save t' ''n2'' ''d2'') = ''frozen''" by blast
  with run ne ok rd show ?thesis by blast
qed

section \<open>Saving and loading without frozen segments\<close>

text \<open>
  What \<open>reconstruct_message\<close> makes of a marker message \<open>File sent: <path>\<close>, with or
  without an earlier \<open>File Content:\<close> part, for a path without line break and without
  the marker inside it.
\<close>

lemma py_split_nonempty: "py_split sep s \<noteq> []"
  by (cases s) (auto split: list.splits)

lemma py_split_sep:
  assumes "sep \<noteq> []"
  shows "py_split sep (sep @ rest) = [] # py_split sep rest"
proof -
  from assms obtain c cs where sep: "sep = c # cs" by (cases sep) auto
  have sw: "startswith (c # (cs @ rest)) sep" by (simp add: startswith_def sep)
  have dr: "drop (length sep) (c # (cs @ rest)) = rest" by (simp add: sep)
  have "py_split sep (c # (cs @ rest)) = [] # py_split sep (drop (length sep) (c # (cs @ rest)))"
    using assms sw by (subst py_split.simps(2)) simp
  then show ?thesis by (simp only: dr) (simp add: sep)
qed

lemma startswith_nth:
  assumes "startswith (drop i s) sep" and "k < length sep"
  shows "i + k < length s \<and> s ! (i + k) = sep ! k"
proof -
  from assms(1) have t: "take (length sep) (drop i s) = sep" by (simp add: startswith_def)
  then have "length (take (length sep) (drop i s)) = length sep" by simp
  then have len: "length sep \<le> length s - i" by simp
  with assms(2) have lt: "i + k < length s" by simp
  have "sep ! k = take (length sep) (drop i s) ! k" by (simp add: t)
  also have "\<dots> = s ! (i + k)" using assms(2) lt by simp
  finally show ?thesis using lt by simp
qed

lemma py_split_hd_append:
  assumes "sep \<noteq> []" and "\<forall>i<length a. \<not> startswith (drop i (a @ rest)) sep"
  shows "hd (py_split sep (a @ rest)) = a @ hd (py_split sep rest)"
  using assms(2)
proof (induction a)
  case Nil
  then show ?case by simp
next
  case (Cons c a)
  from Cons.prems have first: "\<not> startswith (c # (a @ rest)) sep" by fastforce
  have "\<forall>i<length a. \<not> startswith (drop i (a @ rest)) sep"
  proof (intro allI impI)
    fix i assume "i < length a"
    then have "Suc i < length (c # a)" by simp
    with Cons.prems have "\<not> startswith (drop (Suc i) ((c # a) @ rest)) sep" by blast
    then show "\<not> startswith (drop i (a @ rest)) sep" by simp
  qed
  then have ih: "hd (py_split sep (a @ rest)) = a @ hd (py_split sep rest)" by (rule Cons.IH)
  obtain p ps where sp: "py_split sep (a @ rest) = p # ps"
    using py_split_nonempty [of sep "a @ rest"] by (cases "py_split sep (a @ rest)") auto
  have "py_split sep (c # (a @ rest)) = (c # p) # ps"
    using first sp by (subst py_split.simps(2)) simp
  then show ?case using ih sp by simp
qed

lemma no_sep_in_lines:
  assumes "CHR 0x0A \<notin> set a"
  shows "\<forall>i<length a. \<not> startswith (drop i (a @ rest)) file_content_sep"
proof (intro allI impI notI)
  fix i assume i: "i < length a" and sw: "startswith (drop i (a @ rest)) file_content_sep"
  have "0 < length file_content_sep" by (simp add: file_content_sep_def)
  from startswith_nth [OF sw this] have "(a @ rest) ! i = file_content_sep ! 0" by simp
  then have "a ! i = CHR 0x0A" using i by (simp add: nth_append file_content_sep_def)
  with i assms show False by (metis nth_mem)
qed

lemma marker_not_in_sep:
  "\<forall>i<length file_content_sep. \<not> startswith (drop i (file_content_sep @ old)) ''File sent: ''"
proof (intro allI impI notI)
  fix i assume i: "i < length file_content_sep"
    and sw: "startswith (drop i (file_content_sep @ old)) ''File sent: ''"
  from startswith_nth [OF sw, of 0] have f: "(file_content_sep @ old) ! i = CHR ''F''" by simp
  have "\<forall>j<16. (file_content_sep @ old) ! j = CHR ''F'' \<longrightarrow> j = 2"
    by (simp add: file_content_sep_def All_less_Suc eval_nat_numeral)
  moreover from i have "i < 16" by (simp add: file_content_sep_def)
  ultimately have "i = 2" using f by blast
  with startswith_nth [OF sw, of 5] show False by (simp add: file_content_sep_def)
qed

lemma marker_not_across:
  assumes "plain_path p" and "tail = [] \<or> tail = file_content_sep @ old"
  shows "\<forall>i<length p. \<not> startswith (drop i (p @ tail)) ''File sent: ''"
proof (intro allI impI notI)
  fix i assume i: "i < length p" and sw: "startswith (drop i (p @ tail)) ''File sent: ''"
  from assms(1) i have np: "\<not> startswith (drop i p) ''File sent: ''" by (simp add: plain_path_def)
  show False
  proof (cases "i + 11 \<le> length p")
    case True
    have l: "length ''File sent: '' = 11" by simp
    from True have "take 11 (drop i (p @ tail)) = take 11 (drop i p)" by simp
    moreover from sw have "take 11 (drop i (p @ tail)) = ''File sent: ''"
      unfolding startswith_def l .
    ultimately have "take 11 (drop i p) = ''File sent: ''" by (simp only:)
    then have "startswith (drop i p) ''File sent: ''" unfolding startswith_def l .
    with np show False by contradiction
  next
    case False
    then have k: "length p - i < length ''File sent: ''" by simp
    from startswith_nth [OF sw k] i
    have lt: "length p < length (p @ tail)"
      and eq: "(p @ tail) ! length p = ''File sent: '' ! (length p - i)" by simp_all
    from lt assms(2) have tl: "tail = file_content_sep @ old" by auto
    then have "(p @ tail) ! length p = CHR 0x0A" by (simp add: nth_append file_content_sep_def)
    with eq have "''File sent: '' ! (length p - i) = CHR 0x0A" by simp
    moreover have "''File sent: '' ! (length p - i) \<in> set ''File sent: ''"
      using k by (rule nth_mem)
    ultimately show False by auto
  qed
qed

lemma split_marker_message:
  assumes "plain_path p" and "tail = [] \<or> tail = file_content_sep @ old"
  shows "py_split file_content_sep (py_split ''File sent: '' (''File sent: '' @ p @ tail) ! 1) ! 0 = p"
    and "py_split file_content_sep (''File sent: '' @ p @ tail) ! 0 = ''File sent: '' @ p"
proof -
  have sepne: "file_content_sep \<noteq> []" by (simp add: file_content_sep_def)
  have nl: "CHR 0x0A \<notin> set p" using assms(1) by (simp add: plain_path_def)
  have tail_hd: "hd (py_split file_content_sep tail) = []"
    using assms(2) py_split_sep [OF sepne] by auto
  \<comment> \<open>the text before the first content separator\<close>
  have "CHR 0x0A \<notin> set (''File sent: '' @ p)" using nl by simp
  from py_split_hd_append [OF sepne no_sep_in_lines [OF this], of tail]
  have base: "hd (py_split file_content_sep (''File sent: '' @ p @ tail)) = ''File sent: '' @ p"
    using tail_hd by simp
  \<comment> \<open>the piece after the marker\<close>
  have m: "py_split ''File sent: '' (''File sent: '' @ p @ tail)
             = [] # py_split ''File sent: '' (p @ tail)"
    by (rule py_split_sep) simp
  have part: "hd (py_split ''File sent: '' (p @ tail)) = p @ hd (py_split ''File sent: '' tail)"
    by (rule py_split_hd_append [OF _ marker_not_across [OF assms]]) simp
  have x: "\<exists>y. hd (py_split ''File sent: '' tail) = tail \<or> hd (py_split ''File sent: '' tail) = file_content_sep @ y"
  proof (cases "tail = []")
    case True
    then show ?thesis by simp
  next
    case False
    with assms(2) have t: "tail = file_content_sep @ old" by simp
    have "hd (py_split ''File sent: '' (file_content_sep @ old))
            = file_content_sep @ hd (py_split ''File sent: '' old)"
      by (rule py_split_hd_append [OF _ marker_not_in_sep]) simp
    with t show ?thesis by auto
  qed
  then obtain y where y: "hd (py_split ''File sent: '' tail) = [] \<or> hd (py_split ''File sent: '' tail) = file_content_sep @ y"
    using assms(2) by (cases "tail = []") auto
  then have xh: "hd (py_split file_content_sep (hd (py_split ''File sent: '' tail))) = []"
  proof
    assume "hd (py_split ''File sent: '' tail) = []"
    then show ?thesis by (simp only: py_split.simps list.sel)
  next
    assume "hd (py_split ''File sent: '' tail) = file_content_sep @ y"
    then show ?thesis by (simp only: py_split_sep [OF sepne] list.sel)
  qed
  from py_split_hd_append [OF sepne no_sep_in_lines [OF nl], of "hd (py_split ''File sent: '' tail)"]
  have path: "hd (py_split file_content_sep (p @ hd (py_split ''File sent: '' tail))) = p"
    using xh by simp
  have nth0: "xs \<noteq> [] \<Longrightarrow> xs ! 0 = hd xs" for xs :: "string list" by (cases xs) auto
  have e1: "py_split ''File sent: '' (''File sent: '' @ p @ tail) ! 1
              = hd (py_split ''File sent: '' (p @ tail))"
    by (simp only: m One_nat_def nth_Cons_Suc nth0 [OF py_split_nonempty])
  show "py_split file_content_sep (py_split ''File sent: '' (''File sent: '' @ p @ tail) ! 1) ! 0 = p"
    by (simp only: e1 part nth0 [OF py_split_nonempty] path)
  show "py_split file_content_sep (''File sent: '' @ p @ tail) ! 0 = ''File sent: '' @ p"
    by (simp only: nth0 [OF py_split_nonempty] base)
qed

lemma reconstruct_marker_message:
  assumes "plain_path p" and "tail = [] \<or> tail = file_content_sep @ old"
  shows "reconstruct_message fs \<lparr>role = r, msg_text = ''File sent: '' @ p @ tail\<rparr>
           = (case fs p of
                Inr file_content \<Rightarrow>
                  Inr \<lparr>role = r, msg_text = ''File sent: '' @ p @ file_content_sep @ file_content\<rparr>
              | Inl (FileNotFoundError x) \<Rightarrow>
                  Inr \<lparr>role = r,
                       msg_text = ''File sent: '' @ p @ [CHR 0x0A] @ ''Error: File not found at ''
                                  @ [CHR 0x27] @ p @ [CHR 0x27]\<rparr>
              | Inl e \<Rightarrow> Inl e)"
proof -
  have sw: "startswith (''File sent: '' @ p @ tail) ''File sent: ''" by (simp add: startswith_def)
  note sp = split_marker_message [OF assms]
  show ?thesis
    unfolding reconstruct_message_def Let_def
    by (simp only: message.simps sw if_True sp) (simp split: sum.split exn.split)
qed

lemma reconstruct_all_result:
  "list_all (readable fs) ms \<Longrightarrow> reconstruct_all fs ms h = Inr (h @ map (rebuilt fs) ms)"
  by (induction ms arbitrary: h) (simp_all add: readable_rebuilt)

lemma reconstruct_all_raises:
  "reconstruct_all fs ms h = Inl e \<Longrightarrow> \<exists>msg\<in>set ms. reconstruct_message fs msg = Inl e"
  by (induction ms arbitrary: h) (auto split: sum.splits)

lemma reconstruct_all_returns:
  "reconstruct_all fs ms h = Inr h' \<Longrightarrow> list_all (readable fs) ms"
  by (induction ms arbitrary: h) (auto simp: readable_def split: sum.splits)

lemma reconstruct_message_raises:
  assumes "reconstruct_message fs m = Inl e"
  shows "startswith (msg_text m) ''File sent: '' \<and> (\<exists>path. fs path = Inl e)
         \<and> (\<forall>x. e \<noteq> FileNotFoundError x)"
  using assms
  by (auto simp: reconstruct_message_def Let_def split: if_splits sum.splits exn.splits)

lemma load_plain:
  assumes "frozen_segments t = []"
  shows "load fs filename (save t name description) t0
           = (case reconstruct_all fs (history t) [] of
                Inl e \<Rightarrow> Inl e
              | Inr h \<Rightarrow> Inr (t0\<lparr>history := h, current_position := int (length h) - 1,
                                 frozen_segments := [], start_mode := ''interactive'',
                                 loaded_filename := Some filename\<rparr>))"
  using assms by (simp add: load_def save_def Let_def)

lemma rebuilt_marker:
  assumes "plain_path p" and "tail = [] \<or> tail = file_content_sep @ old"
    and "m = \<lparr>role = r, msg_text = ''File sent: '' @ p @ tail\<rparr>"
    and "readable fs m"
  shows "(\<forall>c. fs p = Inr c \<longrightarrow>
            rebuilt fs m = \<lparr>role = r, msg_text = ''File sent: '' @ p @ file_content_sep @ c\<rparr>)
         \<and> (\<forall>x. fs p = Inl (FileNotFoundError x) \<longrightarrow>
              rebuilt fs m = \<lparr>role = r,
                    msg_text = ''File sent: '' @ p @ [CHR 0x0A] @ ''Error: File not found at ''
                               @ [CHR 0x27] @ p @ [CHR 0x27]\<rparr>)"
  unfolding rebuilt_def assms(3) reconstruct_marker_message [OF assms(1,2)]
  by simp

lemma marker_raises:
  assumes "plain_path p" and "tail = [] \<or> tail = file_content_sep @ old"
    and "fs p = Inl e" and "\<forall>x. e \<noteq> FileNotFoundError x"
  shows "reconstruct_message fs \<lparr>role = r, msg_text = ''File sent: '' @ p @ tail\<rparr> = Inl e"
  unfolding reconstruct_marker_message [OF assms(1,2)]
  using assms(3,4) by (cases e) simp_all

lemma plain_path_notes: "plain_path ''notes.txt''"
  by (simp add: plain_path_def startswith_def All_less_Suc)

text \<open>
  Against claim C5 as stated (texts preserved): a message whose text begins with the
  marker \<open>File sent: \<close> does not come back as it was saved. \<open>load\<close> reads the named
  file again: with the file absent the text gains the not-found note, and with the
  path naming a directory the \<open>IsADirectoryError\<close> of \<open>open\<close> leaves \<open>load\<close>, which
  then loads nothing.
\<close>

theorem save_load_marker_text_changes:
  "frozen_segments file_marker_timeline = []
   \<and> load no_files ''chat.json'' (save file_marker_timeline ''n'' ''d'') Timeline_init
       = Inr \<lparr>history = [\<lparr>role = ''user'',
                           msg_text = ''File sent: notes.txt'' @ [CHR 0x0A]
                                      @ ''Error: File not found at '' @ [CHR 0x27]
                                      @ ''notes.txt'' @ [CHR 0x27]\<rparr>],
              current_position = 0, frozen_segments = [], start_mode = ''interactive'',
              loaded_filename = Some ''chat.json''\<rparr>
   \<and> map msg_text (history file_marker_timeline) = [''File sent: notes.txt'']
   \<and> history (projr (load no_files ''chat.json'' (save file_marker_timeline ''n'' ''d'')
                         Timeline_init))
       \<noteq> history file_marker_timeline
   \<and> frozen_segments directory_marker_timeline = []
   \<and> load directory_disk ''chat.json'' (save directory_marker_timeline ''n'' ''d'') Timeline_init
       = Inl (IsADirectoryError ''.'')"
proof -
  have a: "reconstruct_message no_files \<lparr>role = ''user'', msg_text = ''File sent: notes.txt''\<rparr>
             = Inr \<lparr>role = ''user'',
                    msg_text = ''File sent: notes.txt'' @ [CHR 0x0A]
                               @ ''Error: File not found at '' @ [CHR 0x27]
                               @ ''notes.txt'' @ [CHR 0x27]\<rparr>"
    by (simp add: reconstruct_message_def startswith_def file_content_sep_def no_files_def)
  have b: "reconstruct_message directory_disk \<lparr>role = ''user'', msg_text = ''File sent: .''\<rparr>
             = Inl (IsADirectoryError ''.'')"
    by (simp add: reconstruct_message_def startswith_def file_content_sep_def directory_disk_def)
  have c: "reconstruct_message directory_disk \<lparr>role = ''user'', msg_text = ''hello''\<rparr>
             = Inr \<lparr>role = ''user'', msg_text = ''hello''\<rparr>"
    by (simp add: reconstruct_message_plain startswith_def)
  show ?thesis
    by (simp add: load_def save_def file_marker_timeline_def directory_marker_timeline_def
        Timeline_init_def Let_def a b c)
qed

text \<open>
  Claim C5, as amended. For a Timeline without frozen segments, saved and loaded
  again: \<open>load\<close> returns whenever every message can be reconstructed. Whenever it
  returns, the history has the same length and the same roles in the same order;
  every message whose text does not begin with \<open>File sent: \<close> is unchanged; a marker
  message \<open>File sent: <path>\<close> (with or without an earlier \<open>File Content:\<close> part) comes
  back as the marker line followed by the file's present content, or by the not-found
  note when the file is absent; the cursor is \<open>len(history) - 1\<close>. When \<open>load\<close> raises,
  the exception is the one that reading the file of some marker message raised, and
  it is not \<open>FileNotFoundError\<close>; and \<open>load\<close> does raise when the file of a marker
  message cannot be read for another reason than being absent.
\<close>

theorem save_load_without_segments:
  assumes "frozen_segments t = []"
  shows "(list_all (readable fs) (history t)
            \<longrightarrow> (\<exists>t'. load fs filename (save t name description) t0 = Inr t'))
         \<and> (\<forall>t'. load fs filename (save t name description) t0 = Inr t' \<longrightarrow>
               list_all2 (\<lambda>m m'. reconstruct_message fs m = Inr m') (history t) (history t')
               \<and> length (history t') = length (history t)
               \<and> map role (history t') = map role (history t)
               \<and> (\<forall>i<length (history t).
                     \<not> startswith (msg_text (history t ! i)) ''File sent: ''
                       \<longrightarrow> history t' ! i = history t ! i)
               \<and> (\<forall>i<length (history t). \<forall>p old.
                     plain_path p
                     \<and> (msg_text (history t ! i) = ''File sent: '' @ p
                        \<or> msg_text (history t ! i) = ''File sent: '' @ p @ file_content_sep @ old)
                       \<longrightarrow> (\<forall>c. fs p = Inr c \<longrightarrow>
                               msg_text (history t' ! i)
                                 = ''File sent: '' @ p @ file_content_sep @ c)
                           \<and> (\<forall>x. fs p = Inl (FileNotFoundError x) \<longrightarrow>
                               msg_text (history t' ! i)
                                 = ''File sent: '' @ p @ [CHR 0x0A] @ ''Error: File not found at ''
                                   @ [CHR 0x27] @ p @ [CHR 0x27]))
               \<and> current_position t' = int (length (history t)) - 1
               \<and> frozen_segments t' = [])
         \<and> (\<forall>e. load fs filename (save t name description) t0 = Inl e \<longrightarrow>
               (\<exists>msg\<in>set (history t).
                   startswith (msg_text msg) ''File sent: ''
                   \<and> reconstruct_message fs msg = Inl e
                   \<and> (\<exists>path. fs path = Inl e) \<and> (\<forall>x. e \<noteq> FileNotFoundError x)))
         \<and> (\<forall>i<length (history t). \<forall>p old e.
               plain_path p
               \<and> (msg_text (history t ! i) = ''File sent: '' @ p
                  \<or> msg_text (history t ! i) = ''File sent: '' @ p @ file_content_sep @ old)
               \<and> fs p = Inl e \<and> (\<forall>x. e \<noteq> FileNotFoundError x)
                 \<longrightarrow> (\<exists>e'. load fs filename (save t name description) t0 = Inl e'))"
proof (intro conjI allI impI)
  note run = load_plain [OF assms, of fs filename name description t0]
  {
    assume "list_all (readable fs) (history t)"
    then show "\<exists>t'. load fs filename (save t name description) t0 = Inr t'"
      by (simp add: run reconstruct_all_result)
  }
  {
    fix e assume "load fs filename (save t name description) t0 = Inl e"
    then have "reconstruct_all fs (history t) [] = Inl e"
      by (simp add: run split: sum.splits)
    from reconstruct_all_raises [OF this] obtain msg
      where "msg \<in> set (history t)" "reconstruct_message fs msg = Inl e" by blast
    then show "\<exists>msg\<in>set (history t).
                   startswith (msg_text msg) ''File sent: ''
                   \<and> reconstruct_message fs msg = Inl e
                   \<and> (\<exists>path. fs path = Inl e) \<and> (\<forall>x. e \<noteq> FileNotFoundError x)"
      using reconstruct_message_raises [of fs msg e] by blast
  }
  {
    fix i p old e
    assume i: "i < length (history t)"
      and h: "plain_path p
               \<and> (msg_text (history t ! i) = ''File sent: '' @ p
                  \<or> msg_text (history t ! i) = ''File sent: '' @ p @ file_content_sep @ old)
               \<and> fs p = Inl e \<and> (\<forall>x. e \<noteq> FileNotFoundError x)"
    then obtain tail where tail: "tail = [] \<or> tail = file_content_sep @ old"
      and mt: "msg_text (history t ! i) = ''File sent: '' @ p @ tail" by auto
    have "history t ! i = \<lparr>role = role (history t ! i), msg_text = ''File sent: '' @ p @ tail\<rparr>"
      using mt by (cases "history t ! i") simp
    with marker_raises [of p tail old fs e "role (history t ! i)"] h tail
    have "reconstruct_message fs (history t ! i) = Inl e" by simp
    then have "\<not> readable fs (history t ! i)" by (simp add: readable_def)
    then have "\<not> list_all (readable fs) (history t)"
      using i by (auto simp: list_all_length)
    then have "\<not> (\<exists>h. reconstruct_all fs (history t) [] = Inr h)"
      using reconstruct_all_returns by blast
    then show "\<exists>e'. load fs filename (save t name description) t0 = Inl e'"
      by (simp add: run split: sum.splits)
  }
  fix t' assume ld: "load fs filename (save t name description) t0 = Inr t'"
  then obtain h where h: "reconstruct_all fs (history t) [] = Inr h"
    and t': "t' = t0\<lparr>history := h, current_position := int (length h) - 1,
                       frozen_segments := [], start_mode := ''interactive'',
                       loaded_filename := Some filename\<rparr>"
    by (auto simp: run split: sum.splits)
  from reconstruct_all_returns [OF h] have rd: "list_all (readable fs) (history t)" .
  from reconstruct_all_result [OF rd, of "[]"] h have hh: "h = map (rebuilt fs) (history t)" by simp
  have hist: "history t' = map (rebuilt fs) (history t)" by (simp add: t' hh)
  show "list_all2 (\<lambda>m m'. reconstruct_message fs m = Inr m') (history t) (history t')"
    unfolding hist by (rule rebuilt_all [OF rd])
  show "length (history t') = length (history t)" by (simp add: hist)
  have each: "reconstruct_message fs m = Inr (rebuilt fs m)" if "m \<in> set (history t)" for m
    using rd that by (simp add: list_all_iff readable_rebuilt)
  show "map role (history t') = map role (history t)"
    unfolding hist using each reconstruct_message_role by (simp add: comp_def) blast
  show "current_position t' = int (length (history t)) - 1" by (simp add: t' hh)
  show "frozen_segments t' = []" by (simp add: t')
  {
    fix i assume "i < length (history t)"
      and "\<not> startswith (msg_text (history t ! i)) ''File sent: ''"
    then show "history t' ! i = history t ! i" by (simp add: hist plain_readable)
  }
  {
    fix i p old
    assume i: "i < length (history t)"
      and h: "plain_path p
               \<and> (msg_text (history t ! i) = ''File sent: '' @ p
                  \<or> msg_text (history t ! i) = ''File sent: '' @ p @ file_content_sep @ old)"
    then obtain tail where tail: "tail = [] \<or> tail = file_content_sep @ old"
      and mt: "msg_text (history t ! i) = ''File sent: '' @ p @ tail" by auto
    have m: "history t ! i = \<lparr>role = role (history t ! i), msg_text = ''File sent: '' @ p @ tail\<rparr>"
      using mt by (cases "history t ! i") simp
    have r: "readable fs (history t ! i)" using rd i by (simp add: list_all_length)
    have n: "history t' ! i = rebuilt fs (history t ! i)" using i by (simp add: hist)
    from h have pp: "plain_path p" by simp
    note rb = rebuilt_marker [OF pp tail m r]
    {
      fix c assume "fs p = Inr c"
      with rb show "msg_text (history t' ! i) = ''File sent: '' @ p @ file_content_sep @ c"
        by (simp add: n)
    }
    {
      fix x assume "fs p = Inl (FileNotFoundError x)"
      with rb show "msg_text (history t' ! i)
                                 = ''File sent: '' @ p @ [CHR 0x0A] @ ''Error: File not found at ''
                                   @ [CHR 0x27] @ p @ [CHR 0x27]"
        by (simp add: n)
    }
  }
qed

theorem save_load_without_segments_witness:
  "frozen_segments file_marker_timeline = []
   \<and> list_all (readable notes_disk) (history file_marker_timeline)
   \<and> plain_path ''notes.txt''
   \<and> msg_text (history file_marker_timeline ! 0) = ''File sent: '' @ ''notes.txt''
   \<and> notes_disk ''notes.txt'' = Inr ''remember''
   \<and> (\<exists>t'. load notes_disk ''chat.json'' (save file_marker_timeline ''n'' ''d'') Timeline_init
             = Inr t'
          \<and> length (history t') = 1
          \<and> map role (history t') = [''user'']
          \<and> msg_text (history t' ! 0)
              = ''File sent: notes.txt'' @ file_content_sep @ ''remember''
          \<and> current_position t' = 0)"
proof -
  let ?t = file_marker_timeline
  have ns: "frozen_segments ?t = []" by (simp add: file_marker_timeline_def)
  have m0: "msg_text (history ?t ! 0) = ''File sent: '' @ ''notes.txt''"
    by (simp add: file_marker_timeline_def)
  have fc: "notes_disk ''notes.txt'' = Inr ''remember''" by (simp add: notes_disk_def)
  have rm: "reconstruct_message notes_disk \<lparr>role = ''user'', msg_text = ''File sent: '' @ ''notes.txt'' @ []\<rparr>
              = Inr \<lparr>role = ''user'',
                     msg_text = ''File sent: '' @ ''notes.txt'' @ file_content_sep @ ''remember''\<rparr>"
    unfolding reconstruct_marker_message [OF plain_path_notes disjI1 [OF refl]] fc by simp
  have rd: "list_all (readable notes_disk) (history ?t)"
    using rm by (simp add: file_marker_timeline_def readable_def)
  have len: "length (history ?t) = 1" "map role (history ?t) = [''user'']"
    by (simp_all add: file_marker_timeline_def)
  note th = save_load_without_segments [OF ns, where fs = notes_disk and filename = "''chat.json''"
      and name = "''n''" and description = "''d''" and ?t0.0 = Timeline_init]
  from th rd obtain t' where
    run: "load notes_disk ''chat.json'' (save ?t ''n'' ''d'') Timeline_init = Inr t'"
    by blast
  from th run have l: "length (history t') = length (history ?t)"
    and r: "map role (history t') = map role (history ?t)"
    and cp: "current_position t' = int (length (history ?t)) - 1"
    and mk: "\<forall>i<length (history ?t). \<forall>p old.
                     plain_path p
                     \<and> (msg_text (history ?t ! i) = ''File sent: '' @ p
                        \<or> msg_text (history ?t ! i) = ''File sent: '' @ p @ file_content_sep @ old)
                       \<longrightarrow> (\<forall>c. notes_disk p = Inr c \<longrightarrow>
                               msg_text (history t' ! i)
                                 = ''File sent: '' @ p @ file_content_sep @ c)
                           \<and> (\<forall>x. notes_disk p = Inl (FileNotFoundError x) \<longrightarrow>
                               msg_text (history t' ! i)
                                 = ''File sent: '' @ p @ [CHR 0x0A] @ ''Error: File not found at ''
                                   @ [CHR 0x27] @ p @ [CHR 0x27])"
    by blast+
  from mk [rule_format, of 0 "''notes.txt''" "[]" ] m0 plain_path_notes fc len
  have tx: "msg_text (history t' ! 0) = ''File sent: '' @ ''notes.txt'' @ file_content_sep @ ''remember''"
    by simp
  show ?thesis
    using ns rd plain_path_notes m0 fc run l r cp tx len
    by (intro conjI exI [of _ t']) simp_all
qed

section \<open>add\_message and the cursor\<close>

lemma py_insert_in_range:
  "0 \<le> i \<Longrightarrow> i \<le> int (length xs) \<Longrightarrow> py_insert i x xs = take (nat i) xs @ [x] @ drop (nat i) xs"
  by (simp add: py_insert_def Let_def min_def)

lemma py_insert_length: "length (py_insert i x xs) = Suc (length xs)"
  by (simp add: py_insert_def Let_def)

lemma add_message_in_range:
  assumes "- 1 \<le> current_position t" and "current_position t < int (length (history t))"
  shows "inserted_after_cursor t \<lparr>role = r, msg_text = txt\<rparr> (add_message r txt t)"
proof -
  let ?i = "current_position t + 1"
  have i: "0 \<le> ?i" "?i \<le> int (length (history t))" using assms by simp_all
  have h: "history (add_message r txt t)
             = take (nat ?i) (history t) @ [\<lparr>role = r, msg_text = txt\<rparr>] @ drop (nat ?i) (history t)"
    using py_insert_in_range [OF i] by (simp add: add_message_def Let_def)
  have len: "length (take (nat ?i) (history t)) = nat ?i" using i by simp
  have "(take (nat ?i) (history t) @ [\<lparr>role = r, msg_text = txt\<rparr>] @ drop (nat ?i) (history t)) ! nat ?i
          = \<lparr>role = r, msg_text = txt\<rparr>"
    using len by (metis append_Cons nth_append_length)
  then have idx: "py_index (history (add_message r txt t)) ?i = Inr \<lparr>role = r, msg_text = txt\<rparr>"
    using i h by (simp add: py_index_def)
  have cp: "current_position (add_message r txt t) = ?i"
    by (simp add: add_message_def Let_def)
  show ?thesis
    unfolding inserted_after_cursor_def Let_def using i h idx cp by simp
qed


text \<open>
  Claim C2 asks, for every Timeline, that \<open>add_message\<close> puts the new message at index
  \<open>current_position + 1\<close> and sets the cursor to the new message's index. The code does
  not on the freshly created Timeline: the cursor is 0 and the history empty, so
  \<open>insert(1, msg)\<close> puts the message at index 0, the only index there is, and the
  cursor is set to 1, where there is no message.
\<close>

theorem add_message_fresh_not_after_cursor:
  "add_message ''user'' ''hi'' Timeline_init
     = \<lparr>history = [\<lparr>role = ''user'', msg_text = ''hi''\<rparr>], current_position = 1,
        frozen_segments = [], start_mode = ''interactive'', loaded_filename = None\<rparr>
   \<and> py_index (history (add_message ''user'' ''hi'' Timeline_init))
       (current_position Timeline_init + 1) = Inl IndexError
   \<and> \<not> inserted_after_cursor Timeline_init \<lparr>role = ''user'', msg_text = ''hi''\<rparr>
         (add_message ''user'' ''hi'' Timeline_init)"
  by (simp add: add_message_def Timeline_init_def py_insert_def py_index_def
      inserted_after_cursor_def Let_def)


text \<open>
  With the cursor on an entry of the history, or at \<open>-1\<close>, the message is inserted
  right after the cursor and the cursor follows it (lemma \<open>add_message_in_range\<close>
  above); this covers a cursor moved back from the tail.
\<close>

lemma add_message_moved_back:
  "inserted_after_cursor loaded_timeline \<lparr>role = ''user'', msg_text = ''hi''\<rparr>
     (add_message ''user'' ''hi'' loaded_timeline)
   \<and> history (add_message ''user'' ''hi'' loaded_timeline)
       = [\<lparr>role = ''user'', msg_text = ''a''\<rparr>, \<lparr>role = ''user'', msg_text = ''hi''\<rparr>,
          \<lparr>role = ''model'', msg_text = ''b''\<rparr>, \<lparr>role = ''user'', msg_text = ''c''\<rparr>]
   \<and> current_position (add_message ''user'' ''hi'' loaded_timeline) = 1"
proof -
  have "- 1 \<le> current_position loaded_timeline"
    "current_position loaded_timeline < int (length (history loaded_timeline))"
    by (simp_all add: loaded_timeline_def)
  from add_message_in_range [OF this, of "''user''" "''hi''"]
  have "inserted_after_cursor loaded_timeline \<lparr>role = ''user'', msg_text = ''hi''\<rparr>
          (add_message ''user'' ''hi'' loaded_timeline)" .
  moreover have "history (add_message ''user'' ''hi'' loaded_timeline)
       = [\<lparr>role = ''user'', msg_text = ''a''\<rparr>, \<lparr>role = ''user'', msg_text = ''hi''\<rparr>,
          \<lparr>role = ''model'', msg_text = ''b''\<rparr>, \<lparr>role = ''user'', msg_text = ''c''\<rparr>]"
    by (simp add: add_message_def loaded_timeline_def py_insert_def Let_def)
  moreover have "current_position (add_message ''user'' ''hi'' loaded_timeline) = 1"
    by (simp add: add_message_def loaded_timeline_def Let_def)
  ultimately show ?thesis by simp
qed

text \<open>
  Claim C3 asks that \<open>add_message\<close> keeps \<open>0 \<le> current_position < len(history)\<close> for a
  non-empty history, starting from the fresh Timeline. The code does not: the fresh
  Timeline satisfies the invariant, and after one \<open>add_message\<close> the history has one
  entry and the cursor is 1.
\<close>

theorem add_message_fresh_breaks_position:
  "position_ok Timeline_init
   \<and> current_position Timeline_init = 0
   \<and> history (add_message ''user'' ''hi'' Timeline_init) = [\<lparr>role = ''user'', msg_text = ''hi''\<rparr>]
   \<and> current_position (add_message ''user'' ''hi'' Timeline_init) = 1
   \<and> \<not> position_ok (add_message ''user'' ''hi'' Timeline_init)"
  by (simp add: add_message_def Timeline_init_def py_insert_def position_ok_def Let_def)

text \<open>From a cursor inside the history (or \<open>-1\<close>) the invariant is kept.\<close>

lemma add_message_keeps_position:
  assumes "- 1 \<le> current_position t" and "current_position t < int (length (history t))"
  shows "position_ok (add_message r txt t)"
  using assms by (simp add: position_ok_def add_message_def Let_def py_insert_length)

section \<open>The message pipeline and its rollback\<close>

text \<open>
  Claim C1 asks that a failed provider call is reported, not raised, and leaves the
  Timeline as it was. The code does not. With the cursor away from the tail (as
  \<open>load\<close> leaves it for a frozen file) the user message is inserted after the cursor
  and the rollback removes the last entry instead: the old message \<open>c\<close> is lost, the
  new \<open>hi\<close> stays, the cursor has moved. And an exception that is not a
  \<open>ModelRequestException\<close>, the only kind the Vertex provider lets out, leaves the
  method with the user message still in the history.
\<close>

theorem process_message_rollback_wrong_entry:
  "process_message failing_provider ''hi'' loaded_timeline
     = (Inr (None, Some ''Error with anthropic model: timeout''),
        loaded_timeline\<lparr>history := [\<lparr>role = ''user'', msg_text = ''a''\<rparr>,
                                    \<lparr>role = ''user'', msg_text = ''hi''\<rparr>,
                                    \<lparr>role = ''model'', msg_text = ''b''\<rparr>],
                        current_position := 1\<rparr>)
   \<and> process_message (generate_content failing_vertex) ''hi'' Timeline_init
     = (Inl (ApiError ''503 unavailable''),
        Timeline_init\<lparr>history := [\<lparr>role = ''user'', msg_text = ''hi''\<rparr>],
                       current_position := 1\<rparr>)"
  by (simp add: process_message_def failing_provider_def loaded_timeline_def startswith_def
      construct_message_def py_strip_def py_isspace_def add_message_def py_insert_def Let_def
      failing_vertex_def vertex_generate_content_def conversation_of_def Timeline_init_def)

text \<open>
  With the cursor on the last entry and a \<open>ModelRequestException\<close> the history is
  restored; the cursor is left one past the end.
\<close>

lemma process_message_rollback_at_tail:
  assumes "current_position t = int (length (history t)) - 1"
    and "\<not> startswith user_input ''file ''" and "py_strip user_input \<noteq> []"
    and "gen (conversation_of (history t) @ [\<lparr>cm_role = ''user'', cm_parts = Some [Some user_input], cm_content = None\<rparr>])
           = Inl (ModelRequestException msg model_type)"
  shows "process_message gen user_input t
           = (Inr (None, Some (''Error with '' @ model_type @ '' model: '' @ msg)),
              t\<lparr>current_position := int (length (history t))\<rparr>)"
  using assms
  by (simp add: process_message_def construct_message_def add_message_def py_insert_def Let_def)


section \<open>The Groq conversion\<close>

lemma py_insert_0: "py_insert 0 x xs = x # xs"
  by (simp add: py_insert_def)

lemma convert_turns_kept: "convert_turns conversation = map sent_turn (kept_turns conversation)"
  by (induction conversation) (simp_all add: kept_turns_def sent_turn_def Let_def)

lemma is_system_sent_turn: "is_system (sent_turn m) = (cm_role m = ''system'')"
  by (simp add: is_system_def sent_turn_def turn_role_def)

lemma filter_system_sent:
  "filter is_system (map sent_turn xs) = map sent_turn (filter (\<lambda>m. cm_role m = ''system'') xs)"
  by (induction xs) (simp_all add: is_system_sent_turn)

lemma system_kept:
  "list_ex (\<lambda>msg. fst msg = ''system'') (convert_turns conversation)
     = (system_turns conversation \<noteq> [])"
proof -
  have eq: "(\<lambda>msg. fst msg = ''system'') = is_system" by (simp add: is_system_def fun_eq_iff)
  have "list_ex is_system (map sent_turn xs) = (filter (\<lambda>m. cm_role m = ''system'') xs \<noteq> [])"
    for xs
    by (induction xs) (simp_all add: is_system_sent_turn)
  then show ?thesis by (simp add: eq convert_turns_kept system_turns_def)
qed

lemma convert_conversation_format_kept:
  "convert_conversation_format conversation
     = (if system_turns conversation = [] then [(''system'', ''You are a helpful assistant.'')]
        else []) @ map sent_turn (kept_turns conversation)"
  unfolding convert_conversation_format_def Let_def system_kept py_insert_0
  by (simp add: convert_turns_kept)

lemma filter_system_converted:
  "filter is_system (convert_conversation_format conversation)
     = (if system_turns conversation = [] then [(''system'', ''You are a helpful assistant.'')]
        else map sent_turn (system_turns conversation))"
proof -
  have d: "is_system (''system'', ''You are a helpful assistant.'')" by (simp add: is_system_def)
  show ?thesis
    using d by (simp add: convert_conversation_format_kept filter_system_sent)
      (simp add: system_turns_def)
qed

text \<open>
  Against claim C7 as stated (exactly one system message, at position 0): a system turn
  that is not the first turn stays where it is, and a second one stays too: the request
  then has two system messages, none at position 0.
\<close>

theorem groq_system_message_not_first:
  "convert_conversation_format
     [\<lparr>cm_role = ''user'', cm_parts = Some [Some ''hi''], cm_content = None\<rparr>,
      \<lparr>cm_role = ''system'', cm_parts = Some [Some ''Be brief.''], cm_content = None\<rparr>,
      \<lparr>cm_role = ''system'', cm_parts = Some [Some ''Be kind.''], cm_content = None\<rparr>]
     = [(''user'', ''hi''), (''system'', ''Be brief.''), (''system'', ''Be kind.'')]
   \<and> length (filter is_system (convert_conversation_format
        [\<lparr>cm_role = ''user'', cm_parts = Some [Some ''hi''], cm_content = None\<rparr>,
         \<lparr>cm_role = ''system'', cm_parts = Some [Some ''Be brief.''], cm_content = None\<rparr>,
         \<lparr>cm_role = ''system'', cm_parts = Some [Some ''Be kind.''], cm_content = None\<rparr>])) = 2
   \<and> \<not> is_system (hd (convert_conversation_format
        [\<lparr>cm_role = ''user'', cm_parts = Some [Some ''hi''], cm_content = None\<rparr>,
         \<lparr>cm_role = ''system'', cm_parts = Some [Some ''Be brief.''], cm_content = None\<rparr>,
         \<lparr>cm_role = ''system'', cm_parts = Some [Some ''Be kind.''], cm_content = None\<rparr>]))"
  by (simp add: convert_conversation_format_def turn_role_def turn_content_def
      List.map_filter_def is_system_def)

text \<open>
  Claim C7, as amended. The request is the turns of the conversation that have
  non-empty content, each as it is sent (\<open>model\<close> renamed \<open>assistant\<close>), in their order;
  so every system turn with non-empty content is kept inline, at its place. The
  default system message is put in front exactly when no such system turn exists, and
  is then the only system message. The system messages of the request are therefore
  the default alone, or the system turns of the conversation, all of them. Every
  request holds at least one system message; it holds exactly one, at position 0,
  exactly when the conversation has no system turn with content, or has a single one
  that is the first turn with content.
\<close>

theorem groq_system_message:
  "convert_conversation_format conversation
     = (if system_turns conversation = [] then [(''system'', ''You are a helpful assistant.'')]
        else []) @ map sent_turn (kept_turns conversation)
   \<and> filter is_system (convert_conversation_format conversation)
     = (if system_turns conversation = [] then [(''system'', ''You are a helpful assistant.'')]
        else map sent_turn (system_turns conversation))
   \<and> (\<forall>m\<in>set conversation. cm_role m = ''system'' \<and> turn_content m \<noteq> []
         \<longrightarrow> (''system'', turn_content m) \<in> set (convert_conversation_format conversation))
   \<and> list_ex is_system (convert_conversation_format conversation)
   \<and> ((length (filter is_system (convert_conversation_format conversation)) = 1
        \<and> is_system (hd (convert_conversation_format conversation)))
       \<longleftrightarrow> (system_turns conversation = []
            \<or> (length (system_turns conversation) = 1
                \<and> cm_role (hd (kept_turns conversation)) = ''system'')))"
proof (intro conjI)
  let ?r = "convert_conversation_format conversation"
  show "?r = (if system_turns conversation = [] then [(''system'', ''You are a helpful assistant.'')]
        else []) @ map sent_turn (kept_turns conversation)"
    by (rule convert_conversation_format_kept)
  show fl: "filter is_system ?r
     = (if system_turns conversation = [] then [(''system'', ''You are a helpful assistant.'')]
        else map sent_turn (system_turns conversation))"
    by (rule filter_system_converted)
  show "\<forall>m\<in>set conversation. cm_role m = ''system'' \<and> turn_content m \<noteq> []
         \<longrightarrow> (''system'', turn_content m) \<in> set ?r"
  proof (intro ballI impI)
    fix m assume m: "m \<in> set conversation" and s: "cm_role m = ''system'' \<and> turn_content m \<noteq> []"
    then have k: "m \<in> set (kept_turns conversation)" by (simp add: kept_turns_def)
    then have "m \<in> set (system_turns conversation)" using s by (simp add: system_turns_def)
    then have ne: "system_turns conversation \<noteq> []" by auto
    have "sent_turn m = (''system'', turn_content m)"
      using s by (simp add: sent_turn_def turn_role_def)
    with k show "(''system'', turn_content m) \<in> set ?r"
      by (simp add: convert_conversation_format_kept ne) force
  qed
  have "filter is_system ?r \<noteq> []" by (simp add: fl)
  then show "list_ex is_system ?r" by (simp add: list_ex_iff filter_empty_conv)
  show "(length (filter is_system ?r) = 1 \<and> is_system (hd ?r))
       \<longleftrightarrow> (system_turns conversation = []
            \<or> (length (system_turns conversation) = 1
                \<and> cm_role (hd (kept_turns conversation)) = ''system''))"
  proof (cases "system_turns conversation = []")
    case True
    then show ?thesis
      by (simp add: fl) (simp add: convert_conversation_format_kept is_system_def)
  next
    case False
    then have k: "kept_turns conversation \<noteq> []" by (auto simp: system_turns_def)
    have "hd ?r = sent_turn (hd (kept_turns conversation))"
      using False k by (simp add: convert_conversation_format_kept hd_map)
    then show ?thesis using False by (simp add: fl is_system_sent_turn)
  qed
qed

theorem groq_system_message_witness:
  "convert_conversation_format
     [\<lparr>cm_role = ''user'', cm_parts = Some [Some ''hi''], cm_content = None\<rparr>]
     = [(''system'', ''You are a helpful assistant.''), (''user'', ''hi'')]
   \<and> convert_conversation_format
     [\<lparr>cm_role = ''system'', cm_parts = Some [Some ''Be brief.''], cm_content = None\<rparr>,
      \<lparr>cm_role = ''model'', cm_parts = Some [Some ''''], cm_content = None\<rparr>,
      \<lparr>cm_role = ''model'', cm_parts = None, cm_content = Some ''ok''\<rparr>]
     = [(''system'', ''Be brief.''), (''assistant'', ''ok'')]
   \<and> (''system'', ''Be brief.'') \<in> set (convert_conversation_format
     [\<lparr>cm_role = ''system'', cm_parts = Some [Some ''Be brief.''], cm_content = None\<rparr>,
      \<lparr>cm_role = ''model'', cm_parts = Some [Some ''''], cm_content = None\<rparr>,
      \<lparr>cm_role = ''model'', cm_parts = None, cm_content = Some ''ok''\<rparr>])"
proof -
  let ?c1 = "[\<lparr>cm_role = ''user'', cm_parts = Some [Some ''hi''], cm_content = None\<rparr>]"
  let ?s = "\<lparr>cm_role = ''system'', cm_parts = Some [Some ''Be brief.''], cm_content = None\<rparr>"
  let ?c2 = "[?s,
      \<lparr>cm_role = ''model'', cm_parts = Some [Some ''''], cm_content = None\<rparr>,
      \<lparr>cm_role = ''model'', cm_parts = None, cm_content = Some ''ok''\<rparr>]"
  have k1: "kept_turns ?c1 = ?c1" "system_turns ?c1 = []"
    by (simp_all add: system_turns_def kept_turns_def turn_content_def List.map_filter_def)
  have k2: "kept_turns ?c2 = [?s, \<lparr>cm_role = ''model'', cm_parts = None, cm_content = Some ''ok''\<rparr>]"
    "system_turns ?c2 = [?s]"
    by (simp_all add: system_turns_def kept_turns_def turn_content_def List.map_filter_def)
  have s1: "map sent_turn ?c1 = [(''user'', ''hi'')]"
    by (simp add: sent_turn_def turn_role_def turn_content_def List.map_filter_def)
  have s2: "map sent_turn [?s, \<lparr>cm_role = ''model'', cm_parts = None, cm_content = Some ''ok''\<rparr>]
              = [(''system'', ''Be brief.''), (''assistant'', ''ok'')]"
    by (simp add: sent_turn_def turn_role_def turn_content_def List.map_filter_def)
  have tc: "?s \<in> set ?c2" "cm_role ?s = ''system'' \<and> turn_content ?s \<noteq> []"
    "turn_content ?s = ''Be brief.''"
    by (simp_all add: turn_content_def List.map_filter_def)
  from groq_system_message [of ?c1] have a: "convert_conversation_format ?c1
     = (if system_turns ?c1 = [] then [(''system'', ''You are a helpful assistant.'')]
        else []) @ map sent_turn (kept_turns ?c1)" by blast
  from groq_system_message [of ?c2] have b: "convert_conversation_format ?c2
     = (if system_turns ?c2 = [] then [(''system'', ''You are a helpful assistant.'')]
        else []) @ map sent_turn (kept_turns ?c2)"
    and "\<forall>m\<in>set ?c2. cm_role m = ''system'' \<and> turn_content m \<noteq> []
         \<longrightarrow> (''system'', turn_content m) \<in> set (convert_conversation_format ?c2)"
    by blast+
  with tc have c: "(''system'', ''Be brief.'') \<in> set (convert_conversation_format ?c2)"
    by metis
  have a': "convert_conversation_format ?c1
     = [(''system'', ''You are a helpful assistant.''), (''user'', ''hi'')]"
    unfolding a k1 s1 by simp
  have b': "convert_conversation_format ?c2 = [(''system'', ''Be brief.''), (''assistant'', ''ok'')]"
    unfolding b k2 s2 by simp
  from a' b' c show ?thesis by (intro conjI)
qed

section \<open>Provider failures\<close>

lemma str_nat_500: "str_nat 500 = ''500''"
  by code_simp

text \<open>
  Claim C8 asks that a failed API call leaves \<open>generate_content\<close> as a
  \<open>ModelRequestException\<close> carrying the provider name and the message, never as
  ordinary reply text. The code does not: \<open>ModelRequestException\<close> is defined, and
  caught by \<open>_process_message\<close>, but no provider raises it. A response with status 500
  comes back from the Anthropic variant as the text \<open>Error: 500, overloaded\<close>, an
  exception of the SDK comes back from the Groq variant as the text
  \<open>Error generating content: connection refused\<close>, and the Vertex variant lets the
  SDK's own exception through unwrapped. The pipeline then takes the error text for
  the model's reply and stores it in the history as a \<open>model\<close> turn.
\<close>

theorem provider_failure_returned_as_text:
  "generate_content failing_anthropic
     [\<lparr>cm_role = ''user'', cm_parts = Some [Some ''hi''], cm_content = None\<rparr>]
     = Inr ''Error: 500, overloaded''
   \<and> generate_content failing_groq
     [\<lparr>cm_role = ''user'', cm_parts = Some [Some ''hi''], cm_content = None\<rparr>]
     = Inr ''Error generating content: connection refused''
   \<and> generate_content failing_vertex
     [\<lparr>cm_role = ''user'', cm_parts = Some [Some ''hi''], cm_content = None\<rparr>]
     = Inl (ApiError ''503 unavailable'')
   \<and> process_message (generate_content failing_anthropic) ''hi'' Timeline_init
     = (Inr (Some ''Error: 500, overloaded'', None),
        Timeline_init\<lparr>history := [\<lparr>role = ''user'', msg_text = ''hi''\<rparr>,
                                   \<lparr>role = ''model'', msg_text = ''Error: 500, overloaded''\<rparr>],
                       current_position := 2\<rparr>)"
proof -
  let ?c = "[\<lparr>cm_role = ''user'', cm_parts = Some [Some ''hi''], cm_content = None\<rparr>]"
  have a: "generate_content failing_anthropic ?c = Inr ''Error: 500, overloaded''"
    by (simp add: failing_anthropic_def anthropic_generate_content_def str_int_def str_nat_500
        List.map_filter_def)
  have g: "generate_content failing_groq ?c = Inr ''Error generating content: connection refused''"
    by (simp add: failing_groq_def groq_generate_content_def)
  have v: "generate_content failing_vertex ?c = Inl (ApiError ''503 unavailable'')"
    by (simp add: failing_vertex_def vertex_generate_content_def)
  have cv: "conversation_of (history Timeline_init) = []"
    by (simp add: conversation_of_def Timeline_init_def)
  have cm: "construct_message ''hi'' ''user'' = Some (hd ?c)"
    by (simp add: construct_message_def py_strip_def py_isspace_def)
  have p: "process_message (generate_content failing_anthropic) ''hi'' Timeline_init
     = (Inr (Some ''Error: 500, overloaded'', None),
        Timeline_init\<lparr>history := [\<lparr>role = ''user'', msg_text = ''hi''\<rparr>,
                                   \<lparr>role = ''model'', msg_text = ''Error: 500, overloaded''\<rparr>],
                       current_position := 2\<rparr>)"
    unfolding process_message_def Let_def cv cm
    using a by (simp add: startswith_def add_message_def py_insert_def Timeline_init_def Let_def)
  from a g v p show ?thesis by (intro conjI)
qed

text \<open>
  In general: no provider variant raises \<open>ModelRequestException\<close>, whatever the call
  does; the Groq variant always returns; a failed call is returned as text by the
  Groq and (for a status other than 200) the Anthropic variant, and passed on
  unwrapped by the Anthropic (exception of the HTTP call) and the Vertex variant.
\<close>

lemma anthropic_format_error:
  "anthropic_format c sys acc = Inl e \<Longrightarrow> e = IndexError \<or> e = KeyError"
proof (induction c arbitrary: sys acc)
  case Nil
  then show ?case by simp
next
  case (Cons m ms)
  show ?case
  proof (cases "(if cm_role m = ''model'' then ''assistant'' else cm_role m) = ''system''")
    case True
    with Cons.prems show ?thesis
      by (auto simp: Let_def split: option.splits list.splits dest: Cons.IH)
  next
    case False
    with Cons.prems show ?thesis
      by (auto simp: Let_def split: option.splits dest: Cons.IH)
  qed
qed

lemma anthropic_never_model_request:
  "anthropic_generate_content model_id post conversation \<noteq> Inl (ModelRequestException msg ty)"
  by (auto simp: anthropic_generate_content_def Let_def
      split: sum.splits option.splits list.splits prod.splits if_splits
      dest: anthropic_format_error)

lemma vertex_never_model_request:
  "vertex_generate_content model_id call conversation \<noteq> Inl (ModelRequestException msg ty)"
proof -
  have "vertex_system_instruction c \<noteq> Inl (ModelRequestException msg ty)" for c
    by (induction c) (auto split: option.splits list.splits)
  then show ?thesis
    by (auto simp: vertex_generate_content_def Let_def split: sum.splits)
qed

lemma groq_always_returns:
  "\<exists>txt. groq_generate_content model_id create conversation = Inr txt"
  by (auto simp: groq_generate_content_def Let_def split: sum.splits list.splits)


lemma provider_failure_reporting:
  "generate_content p conversation \<noteq> Inl (ModelRequestException msg ty)
   \<and> (create (convert_conversation_format conversation) model_id = Inl err \<longrightarrow>
        generate_content (GroqModel model_id create) conversation
          = Inr (''Error generating content: '' @ err))
   \<and> (anthropic_format conversation None [] = Inr (system_message, formatted)
        \<and> post (anthropic_data model_id system_message formatted) = Inr response
        \<and> status_code response \<noteq> 200 \<longrightarrow>
        generate_content (AnthropicModel model_id post) conversation
          = Inr (''Error: '' @ str_int (status_code response) @ '', '' @ response_text response))
   \<and> (anthropic_format conversation None [] = Inr (system_message, formatted)
        \<and> post (anthropic_data model_id system_message formatted) = Inl err \<longrightarrow>
        generate_content (AnthropicModel model_id post) conversation = Inl (ApiError err))
   \<and> (vertex_system_instruction conversation = Inr system_instruction
        \<and> call model_id system_instruction
             (filter (\<lambda>m. cm_role m \<noteq> ''system'') conversation) = Inl err \<longrightarrow>
        generate_content (VertexAIModel model_id call) conversation = Inl (ApiError err))"
proof -
  have a: "generate_content p conversation \<noteq> Inl (ModelRequestException msg ty)"
  proof (cases p)
    case (AnthropicModel m f)
    then show ?thesis by (simp add: anthropic_never_model_request)
  next
    case (VertexAIModel m f)
    then show ?thesis by (simp add: vertex_never_model_request)
  next
    case (GroqModel m f)
    then show ?thesis using groq_always_returns [of m f conversation] by auto
  qed
  have b: "create (convert_conversation_format conversation) model_id = Inl err \<longrightarrow>
        generate_content (GroqModel model_id create) conversation
          = Inr (''Error generating content: '' @ err)"
    by (simp add: groq_generate_content_def)
  have c: "anthropic_format conversation None [] = Inr (system_message, formatted)
        \<and> post (anthropic_data model_id system_message formatted) = Inr response
        \<and> status_code response \<noteq> 200 \<longrightarrow>
        generate_content (AnthropicModel model_id post) conversation
          = Inr (''Error: '' @ str_int (status_code response) @ '', '' @ response_text response)"
    by (simp add: anthropic_generate_content_def anthropic_data_def)
  have d: "anthropic_format conversation None [] = Inr (system_message, formatted)
        \<and> post (anthropic_data model_id system_message formatted) = Inl err \<longrightarrow>
        generate_content (AnthropicModel model_id post) conversation = Inl (ApiError err)"
    by (simp add: anthropic_generate_content_def anthropic_data_def)
  have e: "vertex_system_instruction conversation = Inr system_instruction
        \<and> call model_id system_instruction
             (filter (\<lambda>m. cm_role m \<noteq> ''system'') conversation) = Inl err \<longrightarrow>
        generate_content (VertexAIModel model_id call) conversation = Inl (ApiError err)"
    by (simp add: vertex_generate_content_def)
  from a b c d e show ?thesis by blast
qed


section \<open>The routers' caches\<close>

lemma prepare_agent_hit:
  "processors s a = Some p \<Longrightarrow> prepare_agent ev a s = (Inr p, s\<lparr>active_agent := Some a\<rparr>)"
  by (simp add: prepare_agent_def)

lemma prepare_agent_cache:
  "processors (snd (prepare_agent ev a s)) = processors s
   \<or> (processors s a = None
      \<and> (\<exists>p. fst (prepare_agent ev a s) = Inr p
             \<and> processors (snd (prepare_agent ev a s)) = (processors s)(a \<mapsto> p)))"
  by (simp add: prepare_agent_def Let_def split: option.split sum.split)

lemma prepare_agent_returns_cached:
  "prepare_agent ev a s = (Inr p, s') \<Longrightarrow> processors s' a = Some p"
  by (auto simp: prepare_agent_def Let_def split: option.splits sum.splits if_splits)

lemma prepare_agent_keeps:
  assumes "processors s b = Some q"
  shows "processors (snd (prepare_agent ev a s)) b = Some q"
  using prepare_agent_cache [of ev a s] assms by (auto simp: fun_upd_def)

lemma agent_message_cache: "processors (snd (agent_message a user_input s)) = processors s"
  by (simp add: agent_message_def Let_def split: option.split sum.split prod.split)

lemma agent_step_keeps:
  "processors s b = Some q \<Longrightarrow> processors (agent_step ev x s) b = Some q"
  by (cases x) (simp_all add: prepare_agent_keeps agent_message_cache)

lemma agent_run_keeps:
  "processors s b = Some q \<Longrightarrow> processors (agent_run ev xs s) b = Some q"
  by (induction xs arbitrary: s) (simp_all add: agent_step_keeps)

lemma prepare_agent_dom:
  "dom (processors (snd (prepare_agent ev a s))) \<subseteq> insert a (dom (processors s))"
  using prepare_agent_cache [of ev a s] by auto

lemma load_dialog_hit:
  "dialogs m f = Some p \<Longrightarrow> load_dialog ev f m = (Inr p, m\<lparr>active_dialog := Some f\<rparr>)"
  by (simp add: load_dialog_def)

lemma load_dialog_cache:
  "dialogs (snd (load_dialog ev f m)) = dialogs m
   \<or> (dialogs m f = None
      \<and> (\<exists>p. fst (load_dialog ev f m) = Inr p
             \<and> dialogs (snd (load_dialog ev f m)) = (dialogs m)(f \<mapsto> p)))"
  by (simp add: load_dialog_def Let_def split: option.split sum.split)

lemma load_dialog_returns_cached:
  "load_dialog ev f m = (Inr p, m') \<Longrightarrow> dialogs m' f = Some p"
  by (auto simp: load_dialog_def Let_def split: option.splits sum.splits if_splits)

lemma load_dialog_keeps:
  assumes "dialogs m g = Some q"
  shows "dialogs (snd (load_dialog ev f m)) g = Some q"
  using load_dialog_cache [of ev f m] assms by (auto simp: fun_upd_def)

lemma basic_run_keeps:
  "dialogs m g = Some q \<Longrightarrow> dialogs (basic_run ev fs m) g = Some q"
  by (induction fs arbitrary: m) (simp_all add: load_dialog_keeps)

lemma load_dialog_dom:
  "dom (dialogs (snd (load_dialog ev f m))) \<subseteq> insert f (dom (dialogs m))"
  using load_dialog_cache [of ev f m] by auto

lemma reconstruct_all_example:
  "reconstruct_all (\<lambda>path. Inl (FileNotFoundError path)) (history example_timeline) []
     = Inr (history example_timeline)"
  by (simp add: example_timeline_def reconstruct_message_plain startswith_def)

text \<open>
  Claim C6. For the Agent router and for the file router: a preparation (a load) that
  returns a processor has cached it under the identity; after any further
  preparations and messages (loads), preparing the same identity again returns the
  identical processor object and changes nothing but the active identity, so the
  processor's accumulated Timeline is the one returned; and one call adds to the
  cache at most an entry for the identity it was called with.
\<close>

theorem one_processor_per_identity:
  "(prepare_agent ev a s = (Inr p, s') \<longrightarrow>
      processors s' a = Some p
      \<and> prepare_agent ev' a (agent_run ev' xs s')
          = (Inr p, (agent_run ev' xs s')\<lparr>active_agent := Some a\<rparr>))
   \<and> dom (processors (snd (prepare_agent ev a s))) \<subseteq> insert a (dom (processors s))
   \<and> (load_dialog ev f m = (Inr q, m') \<longrightarrow>
      dialogs m' f = Some q
      \<and> load_dialog ev' f (basic_run ev' fs m')
          = (Inr q, (basic_run ev' fs m')\<lparr>active_dialog := Some f\<rparr>))
   \<and> dom (dialogs (snd (load_dialog ev f m))) \<subseteq> insert f (dom (dialogs m))"
proof -
  have 1: "prepare_agent ev a s = (Inr p, s') \<longrightarrow>
      processors s' a = Some p
      \<and> prepare_agent ev' a (agent_run ev' xs s')
          = (Inr p, (agent_run ev' xs s')\<lparr>active_agent := Some a\<rparr>)"
  proof
    assume "prepare_agent ev a s = (Inr p, s')"
    then have c: "processors s' a = Some p" by (rule prepare_agent_returns_cached)
    then have "processors (agent_run ev' xs s') a = Some p" by (rule agent_run_keeps)
    then show "processors s' a = Some p
      \<and> prepare_agent ev' a (agent_run ev' xs s')
          = (Inr p, (agent_run ev' xs s')\<lparr>active_agent := Some a\<rparr>)"
      using c by (simp add: prepare_agent_hit)
  qed
  have 2: "load_dialog ev f m = (Inr q, m') \<longrightarrow>
      dialogs m' f = Some q
      \<and> load_dialog ev' f (basic_run ev' fs m')
          = (Inr q, (basic_run ev' fs m')\<lparr>active_dialog := Some f\<rparr>)"
  proof
    assume "load_dialog ev f m = (Inr q, m')"
    then have c: "dialogs m' f = Some q" by (rule load_dialog_returns_cached)
    then have "dialogs (basic_run ev' fs m') f = Some q" by (rule basic_run_keeps)
    then show "dialogs m' f = Some q
      \<and> load_dialog ev' f (basic_run ev' fs m')
          = (Inr q, (basic_run ev' fs m')\<lparr>active_dialog := Some f\<rparr>)"
      using c by (simp add: load_dialog_hit)
  qed
  from 1 2 prepare_agent_dom [of ev a s] load_dialog_dom [of ev f m] show ?thesis by blast
qed

theorem one_processor_per_identity_witness:
  "fst (prepare_agent example_env example_agent new_agent_manager) = Inr 0
   \<and> fst (prepare_agent example_env example_agent
            (agent_run example_env [Message example_agent ''hi'', Prepare other_agent]
               (snd (prepare_agent example_env example_agent new_agent_manager)))) = Inr 0
   \<and> fst (load_dialog example_env ''chat.json'' new_basic_manager) = Inr 0
   \<and> fst (load_dialog example_env ''chat.json''
            (basic_run example_env [''other.json'']
               (snd (load_dialog example_env ''chat.json'' new_basic_manager)))) = Inr 0"
proof -
  have a: "fst (prepare_agent example_env example_agent new_agent_manager) = Inr 0"
    by (simp add: prepare_agent_def example_env_def new_agent_manager_def
        initialize_model_with_id_def load_def save_def Let_def reconstruct_all_example)
  have b: "fst (load_dialog example_env ''chat.json'' new_basic_manager) = Inr 0"
    by (simp add: load_dialog_def example_env_def new_basic_manager_def
        initialize_model_def load_def save_def Let_def reconstruct_all_example)
  have a': "prepare_agent example_env example_agent new_agent_manager
              = (Inr 0, snd (prepare_agent example_env example_agent new_agent_manager))"
    using a by (simp add: prod_eq_iff)
  have b': "load_dialog example_env ''chat.json'' new_basic_manager
              = (Inr 0, snd (load_dialog example_env ''chat.json'' new_basic_manager))"
    using b by (simp add: prod_eq_iff)
  from one_processor_per_identity
         [of example_env example_agent new_agent_manager 0
             "snd (prepare_agent example_env example_agent new_agent_manager)"
             example_env "[Message example_agent ''hi'', Prepare other_agent]"
             "''chat.json''" new_basic_manager 0
             "snd (load_dialog example_env ''chat.json'' new_basic_manager)" "[''other.json'']"]
       a' b'
  show ?thesis using a b by simp
qed

lemma prepare_agent_other:
  "a \<noteq> b \<Longrightarrow> processors (snd (prepare_agent ev b s)) a = processors s a"
  using prepare_agent_cache [of ev b s] by auto

lemma agent_run_unprepared:
  "processors s a = None \<Longrightarrow> Prepare a \<notin> set xs \<Longrightarrow> processors (agent_run ev xs s) a = None"
proof (induction xs arbitrary: s)
  case Nil
  then show ?case by simp
next
  case (Cons x xs)
  have "processors (agent_step ev x s) a = None"
  proof (cases x)
    case (Prepare b)
    with Cons.prems have "a \<noteq> b" by auto
    with Prepare Cons.prems(1) show ?thesis by (simp add: prepare_agent_other)
  next
    case (Message b u)
    with Cons.prems(1) show ?thesis by (simp add: agent_message_cache)
  qed
  with Cons show ?case by simp
qed

text \<open>
  Claim C9. If an agent has no processor in the router's cache and is not prepared by
  any of the operations that follow, then a message to it fails with
  \<open>AgentNotPreparedError\<close>, the router is left exactly as it was (the agent is not
  prepared on the way), and the cache still has no entry for the agent.
\<close>

theorem message_unprepared_agent:
  assumes "processors s a = None" and "Prepare a \<notin> set xs"
  shows "agent_message a user_input (agent_run ev xs s)
           = (Inl (AgentNotPreparedError ''The provided agent is not prepared''), agent_run ev xs s)
         \<and> processors (agent_run ev xs s) a = None"
  using agent_run_unprepared [OF assms] by (simp add: agent_message_def)

theorem message_unprepared_agent_witness:
  "processors new_agent_manager example_agent = None
   \<and> Prepare example_agent \<notin> set [Prepare other_agent, Message other_agent ''hi'']
   \<and> fst (agent_message example_agent ''hello''
            (agent_run example_env [Prepare other_agent, Message other_agent ''hi''] new_agent_manager))
       = Inl (AgentNotPreparedError ''The provided agent is not prepared'')
   \<and> processors
         (agent_run example_env [Prepare other_agent, Message other_agent ''hi''] new_agent_manager)
         example_agent = None"
proof -
  have n: "processors new_agent_manager example_agent = None"
    by (simp add: new_agent_manager_def)
  have d: "Prepare example_agent \<notin> set [Prepare other_agent, Message other_agent ''hi'']"
    by (simp add: example_agent_def other_agent_def)
  from message_unprepared_agent [OF n d, of "''hello''" example_env]
  show ?thesis using n d by simp
qed

end
